theory Spec2Isabelle
  imports Complex_Main "HOL-Library.Sublist" "HOL-Library.AList" "HOL-Library.Log_Nat"
begin

section \<open>The JavaScript runtime, as far as the trace parser uses it\<close>

text \<open>
  Strings are lists of code units; every code unit of a modelled string is below 256.
  A time stamp is the double that \<open>parseInt\<close> returns, kept as the integer it denotes.
  The vertical positions of the layout are rationals of moderate size, on which the
  additions and comparisons of the corrective pass are exact in double arithmetic.
\<close>

subsection \<open>Digits and decimal numerals\<close>

definition is_digit :: "char \<Rightarrow> bool" where
  "is_digit c = (c \<in> set ''0123456789'')"

definition digit_val :: "char \<Rightarrow> int" where
  "digit_val c = of_char c - 48"

definition int_of_digits :: "string \<Rightarrow> int" where
  "int_of_digits s = foldl (\<lambda>n c. 10 * n + digit_val c) 0 s"

text \<open>Number-to-string conversion of a non-negative integer, as a template literal does it.\<close>

definition digit_char :: "nat \<Rightarrow> char" where
  "digit_char n = ''0123456789'' ! n"

fun show_nat :: "nat \<Rightarrow> string" where
  "show_nat n =
     (if n < 10 then [digit_char n]
      else show_nat (n div 10) @ [digit_char (n mod 10)])"

declare show_nat.simps [simp del]

text \<open>The same numeral by recursion on a bound for the number of digits, for evaluation.\<close>

fun show_digits :: "nat \<Rightarrow> nat \<Rightarrow> string" where
  "show_digits 0 n = [digit_char (n mod 10)]"
| "show_digits (Suc k) n =
     (if n < 10 then [digit_char n]
      else show_digits k (n div 10) @ [digit_char (n mod 10)])"

subsection \<open>\<open>parseInt\<close> without a radix\<close>

definition is_js_whitespace :: "char \<Rightarrow> bool" where
  "is_js_whitespace c = (c \<in> set [CHR 0x09, CHR 0x0A, CHR 0x0B, CHR 0x0C, CHR 0x0D, CHR 0x20, CHR 0xA0])"

definition hex_val :: "char \<Rightarrow> int option" where
  "hex_val c =
     (let n = (of_char c :: int) in
      if 48 \<le> n \<and> n \<le> 57 then Some (n - 48)
      else if 65 \<le> n \<and> n \<le> 70 then Some (n - 55)
      else if 97 \<le> n \<and> n \<le> 102 then Some (n - 87)
      else None)"

definition strip_sign :: "string \<Rightarrow> int \<times> string" where
  "strip_sign s =
     (case s of
        [] \<Rightarrow> (1, [])
      | c # r \<Rightarrow> if c = CHR ''-'' then (-1, r) else if c = CHR ''+'' then (1, r) else (1, s))"

text \<open>
  The Number value of a mathematical integer: the integer itself below \<open>2^53\<close>, else the
  nearest integer with 53 significant bits, a tie going to the even one. A magnitude
  that rounds to \<open>2^1024\<close> or more is an infinity, for which \<open>2^1024\<close> with its sign
  stands: it lies beyond every finite double, and the comparator of the sorts, which
  yields NaN on two equal infinities, ranks them as equal.
\<close>

definition to_double :: "int \<Rightarrow> int" where
  "to_double n =
     (let a = \<bar>n\<bar> in
      if a < 2 ^ 53 then n
      else
        (let e = nat (bitlen a) - 53;
             q = a div 2 ^ e;
             r = a mod 2 ^ e;
             q' = (if 2 * r > 2 ^ e \<or> (2 * r = 2 ^ e \<and> odd q) then q + 1 else q)
         in sgn n * min (q' * 2 ^ e) (2 ^ 1024)))"

text \<open>
  \<open>None\<close> is NaN: no digit of the radix follows the optional sign and prefix. The digits
  are read exactly and rounded once, as the engines do for any number of digits.
\<close>

definition parseInt :: "string \<Rightarrow> int option" where
  "parseInt str =
     (let (sign, s) = strip_sign (dropWhile is_js_whitespace str) in
      if prefix ''0x'' s \<or> prefix ''0X'' s then
        (let ds = takeWhile (\<lambda>c. hex_val c \<noteq> None) (drop 2 s) in
         if ds = [] then None
         else Some (to_double (sign * foldl (\<lambda>n c. 16 * n + the (hex_val c)) 0 ds)))
      else
        (let ds = takeWhile is_digit s in
         if ds = [] then None else Some (to_double (sign * int_of_digits ds))))"

text \<open>\<open>parseInt(x) || 0\<close>: NaN and zero both give zero.\<close>

definition parseInt_or_0 :: "string \<Rightarrow> int" where
  "parseInt_or_0 s = (case parseInt s of None \<Rightarrow> 0 | Some n \<Rightarrow> n)"

subsection \<open>Plain objects used as dictionaries\<close>

text \<open>
  A plain object \<open>{}\<close> is an association list in insertion order: assigning an
  existing key keeps its place, a new key goes last (\<^const>\<open>AList.update\<close>).
  Reading a key that is not an own property falls through to \<open>Object.prototype\<close>,
  whose property names are listed here; every such value is truthy.
\<close>

type_synonym 'v js_object = "(string \<times> 'v) list"

definition object_prototype_keys :: "string list" where
  "object_prototype_keys =
     [''constructor'', ''__defineGetter__'', ''__defineSetter__'', ''hasOwnProperty'',
      ''__lookupGetter__'', ''__lookupSetter__'', ''isPrototypeOf'', ''propertyIsEnumerable'',
      ''toString'', ''valueOf'', ''__proto__'', ''toLocaleString'']"

text \<open>
  \<open>Object.keys\<close> lists the array-index keys first (canonical decimal numerals below
  \<open>2^32 - 1\<close>) in ascending numeric order, then the other keys in insertion order.
\<close>

definition is_array_index :: "string \<Rightarrow> bool" where
  "is_array_index s =
     (s \<noteq> [] \<and> list_all is_digit s \<and> (s = ''0'' \<or> hd s \<noteq> CHR ''0'')
      \<and> int_of_digits s < 4294967295)"

definition Object_keys :: "'v js_object \<Rightarrow> string list" where
  "Object_keys obj =
     sort_key int_of_digits (filter is_array_index (map fst obj))
     @ filter (\<lambda>k. \<not> is_array_index k) (map fst obj)"

subsection \<open>Regular expressions and string tests of the source\<close>

text \<open>
  \<open>/^(\d+)(?:-(\d+))?$/\<close> (and its variant without the second group): a non-empty run of
  digits, optionally followed by a dash and another non-empty run of digits. The result is
  the first capture group.
\<close>

definition baseIdRegExp :: "string \<Rightarrow> string option" where
  "baseIdRegExp s =
     (let d = takeWhile is_digit s; r = dropWhile is_digit s in
      if d = [] then None
      else if r = [] then Some d
      else if hd r = CHR ''-'' \<and> tl r \<noteq> [] \<and> list_all is_digit (tl r) then Some d
      else None)"

text \<open>\<open>s.startsWith(p)\<close> is \<^term>\<open>prefix p s\<close>; \<open>s.includes(p)\<close> is \<^term>\<open>sublist p s\<close>.\<close>

subsection \<open>\<open>atob\<close>\<close>

text \<open>
  The browser's \<open>atob\<close> is the forgiving Base64 decoder of the HTML Standard: ASCII
  whitespace is dropped, up to two padding characters are removed when the length is a
  multiple of four, and the call throws (\<open>None\<close>) when the remaining length is 1 modulo 4
  or a character is outside the Base64 alphabet.
\<close>

definition is_ascii_whitespace :: "char \<Rightarrow> bool" where
  "is_ascii_whitespace c = (c \<in> set [CHR 0x09, CHR 0x0A, CHR 0x0C, CHR 0x0D, CHR 0x20])"

definition b64_index :: "char \<Rightarrow> nat option" where
  "b64_index c =
     (let n = (of_char c :: nat) in
      if 65 \<le> n \<and> n \<le> 90 then Some (n - 65)
      else if 97 \<le> n \<and> n \<le> 122 then Some (n - 71)
      else if 48 \<le> n \<and> n \<le> 57 then Some (n + 4)
      else if c = CHR ''+'' then Some 62
      else if c = CHR ''/'' then Some 63
      else None)"

fun b64_bytes :: "nat list \<Rightarrow> nat list" where
  "b64_bytes (a # b # c # d # r) =
     [a * 4 + b div 16, (b mod 16) * 16 + c div 4, (c mod 4) * 64 + d] @ b64_bytes r"
| "b64_bytes [a, b, c] = [a * 4 + b div 16, (b mod 16) * 16 + c div 4]"
| "b64_bytes [a, b] = [a * 4 + b div 16]"
| "b64_bytes _ = []"

definition strip_padding :: "string \<Rightarrow> string" where
  "strip_padding d =
     (if suffix ''=='' d then take (length d - 2) d
      else if suffix ''='' d then take (length d - 1) d
      else d)"

definition atob :: "string \<Rightarrow> string option" where
  "atob s =
     (let d0 = filter (\<lambda>c. \<not> is_ascii_whitespace c) s;
          d = (if length d0 mod 4 = 0 then strip_padding d0 else d0)
      in if length d mod 4 = 1 \<or> list_ex (\<lambda>c. b64_index c = None) d then None
         else Some (map char_of (b64_bytes (map (\<lambda>c. the (b64_index c)) d))))"

section \<open>The parsed XML document\<close>

datatype xml = Elem string "(string \<times> string) list" "xml list" | Text string

fun descendants :: "xml \<Rightarrow> xml list" where
  "descendants (Elem t as cs) = concat (map (\<lambda>c. c # descendants c) cs)"
| "descendants (Text s) = []"

fun has_tag :: "string \<Rightarrow> xml \<Rightarrow> bool" where
  "has_tag tag (Elem t as cs) = (t = tag)"
| "has_tag tag (Text s) = False"

text \<open>All descendant elements of that name, in document order.\<close>

definition getElementsByTagName :: "xml \<Rightarrow> string \<Rightarrow> xml list" where
  "getElementsByTagName el tag = filter (has_tag tag) (descendants el)"

text \<open>On the document, the root element itself is among the candidates.\<close>

definition doc_getElementsByTagName :: "xml \<Rightarrow> string \<Rightarrow> xml list" where
  "doc_getElementsByTagName doc tag = filter (has_tag tag) (doc # descendants doc)"

text \<open>\<open>list[0]\<close>, undefined on an empty list.\<close>

definition first :: "'a list \<Rightarrow> 'a option" where
  "first xs = (case xs of [] \<Rightarrow> None | x # _ \<Rightarrow> Some x)"

text \<open>
  \<open>el.querySelector(name)\<close> with a type selector: the first descendant element, in
  document order, whose local name is \<open>name\<close>. Unlike \<open>getElementsByTagName\<close>, which
  compares the qualified name, it also finds an element written with a namespace prefix.
\<close>

definition local_name :: "string \<Rightarrow> string" where
  "local_name t = (case dropWhile (\<lambda>c. c \<noteq> CHR '':'') t of [] \<Rightarrow> t | c # l \<Rightarrow> l)"

fun has_local_name :: "string \<Rightarrow> xml \<Rightarrow> bool" where
  "has_local_name n (Elem t as cs) = (local_name t = n)"
| "has_local_name n (Text s) = False"

definition querySelector :: "xml \<Rightarrow> string \<Rightarrow> xml option" where
  "querySelector el n = first (filter (has_local_name n) (descendants el))"

fun getAttribute :: "xml \<Rightarrow> string \<Rightarrow> string option" where
  "getAttribute (Elem t as cs) name = map_of as name"
| "getAttribute (Text s) name = None"

fun setAttribute :: "xml \<Rightarrow> string \<Rightarrow> string \<Rightarrow> xml" where
  "setAttribute (Elem t as cs) name v = Elem t (AList.update name v as) cs"
| "setAttribute (Text s) name v = Text s"

fun textContent :: "xml \<Rightarrow> string" where
  "textContent (Text s) = s"
| "textContent (Elem t as cs) = concat (map textContent cs)"

text \<open>\<open>el.getAttribute(name) || d\<close>: a missing and an empty attribute both give \<open>d\<close>.\<close>

definition attr_or :: "xml \<Rightarrow> string \<Rightarrow> string \<Rightarrow> string" where
  "attr_or el name d =
     (case getAttribute el name of None \<Rightarrow> d | Some v \<Rightarrow> if v = [] then d else v)"

text \<open>\<open>getElementText\<close>: the text of the first descendant of that name.\<close>

definition getElementText :: "xml \<Rightarrow> string \<Rightarrow> string option" where
  "getElementText parentElement tag = map_option textContent (first (getElementsByTagName parentElement tag))"

section \<open>Events\<close>

text \<open>
  The fields of a parsed event that the graph builder and the claims read. The display
  fields (thread, stack, properties, taint ranges, tags, sources, slot codes, the
  serialised XML) are copied from the element and read by nothing below.
\<close>

record arg =
  argHashCode :: "string option"
  argTracked :: bool
  encodedValue :: string
  decodedValue :: "string option"

record content_data =
  tracked :: bool
  hashCode :: string
  encoded :: string
  decoded :: "string option"

record event =
  objectId :: string
  time :: string
  eventType :: string
  isMethodEvent :: bool
  isTriggerEvent :: bool
  isSourceEvent :: bool
  signature :: string
  args :: "arg list"
  parentObjectIds :: "string list"
  objectData :: "content_data option"
  returnData :: "content_data option"

subsection \<open>Decoding of content fields\<close>

text \<open>The replacement callback of \<open>replace(/[<>&"']/g, ...)\<close>.\<close>

definition escape_char :: "char \<Rightarrow> string" where
  "escape_char c =
     (if c = CHR ''<'' then ''&lt;''
      else if c = CHR ''>'' then ''&gt;''
      else if c = CHR ''&'' then ''&amp;''
      else if c = CHR 0x22 then ''&quot;''
      else if c = CHR 0x27 then ''&#39;''
      else [c])"

definition sanitize :: "string \<Rightarrow> string" where
  "sanitize s = concat (map escape_char s)"

text \<open>
  The value left in \<open>objectData.decoded\<close> and \<open>returnData.decoded\<close>: \<open>null\<close> for an
  empty body; otherwise the Base64 decoding, or the raw body when \<open>atob\<close> throws, and
  in both cases escaped when non-empty.
\<close>

definition decodeContent :: "string \<Rightarrow> string option" where
  "decodeContent encodedContent =
     (if encodedContent = [] then None
      else
        (let d = (case atob encodedContent of Some s \<Rightarrow> s | None \<Rightarrow> encodedContent)
         in Some (if d \<noteq> [] then sanitize d else d)))"

definition extractContent :: "xml \<Rightarrow> string \<Rightarrow> content_data option" where
  "extractContent eventEl tag =
     (case querySelector eventEl tag of
        None \<Rightarrow> None
      | Some el \<Rightarrow>
          Some \<lparr> tracked = (getAttribute el ''tracked'' = Some ''true''),
                 hashCode = attr_or el ''hashCode'' [],
                 encoded = textContent el,
                 decoded = decodeContent (textContent el) \<rparr>)"

definition extractArg :: "xml \<Rightarrow> arg" where
  "extractArg argEl =
     (let t = (getAttribute argEl ''tracked'' = Some ''true'') in
      \<lparr> argHashCode = getAttribute argEl ''hashCode'',
        argTracked = t,
        encodedValue = textContent argEl,
        decodedValue =
          (if t then
             (case atob (textContent argEl) of
                Some d \<Rightarrow> Some d
              | None \<Rightarrow> Some ''Unable to decode content'')
           else None) \<rparr>)"

definition extractArgs :: "xml \<Rightarrow> arg list" where
  "extractArgs eventElement =
     (case first (getElementsByTagName eventElement ''args'') of
        None \<Rightarrow> []
      | Some argsElement \<Rightarrow> map extractArg (getElementsByTagName argsElement ''arg''))"

definition extractParentObjectIds :: "xml \<Rightarrow> string list" where
  "extractParentObjectIds eventElement =
     (case first (getElementsByTagName eventElement ''parentObjectIds'') of
        None \<Rightarrow> []
      | Some el \<Rightarrow> map textContent (getElementsByTagName el ''id''))"

subsection \<open>\<open>extractEvents\<close>: collection, ordering and the identifier pass\<close>

definition objectId_at :: "xml \<Rightarrow> nat \<Rightarrow> string" where
  "objectId_at el i = attr_or el ''objectId'' (''event-'' @ show_nat i)"

text \<open>The sort key; \<open>getAttribute\<close> gives \<open>null\<close> for a missing attribute, which \<open>parseInt\<close> reads as the text \<open>null\<close>.\<close>

definition time_of_element :: "xml \<Rightarrow> int" where
  "time_of_element el =
     parseInt_or_0 (case getAttribute el ''time'' of None \<Rightarrow> ''null'' | Some v \<Rightarrow> v)"

text \<open>\<open>Array.prototype.sort\<close> is stable, as \<^const>\<open>sort_key\<close> is.\<close>

definition allEvents :: "xml \<Rightarrow> xml list" where
  "allEvents eventsElement =
     sort_key time_of_element
       (getElementsByTagName eventsElement ''propagation-event''
        @ getElementsByTagName eventsElement ''method-event''
        @ getElementsByTagName eventsElement ''tag-event'')"

text \<open>
  The two tracking objects \<open>objectIdCounts\<close> and \<open>objectIdPositions\<close>. In the first
  pass an identifier that names a property of \<open>Object.prototype\<close> reads as already
  counted; the following \<open>push\<close> on the inherited value throws a TypeError (\<open>None\<close>).
\<close>

type_synonym tracking = "nat js_object \<times> (nat list) js_object"

fun first_pass :: "string list \<Rightarrow> nat \<Rightarrow> tracking \<Rightarrow> tracking option" where
  "first_pass [] i t = Some t"
| "first_pass (oid # ids) i (objectIdCounts, objectIdPositions) =
     (case map_of objectIdCounts oid of
        None \<Rightarrow>
          if oid \<in> set object_prototype_keys then None
          else first_pass ids (Suc i)
                 (AList.update oid 1 objectIdCounts, AList.update oid [i] objectIdPositions)
      | Some c \<Rightarrow>
          (case map_of objectIdPositions oid of
             None \<Rightarrow> None
           | Some ps \<Rightarrow>
               first_pass ids (Suc i)
                 (AList.update oid (c + 1) objectIdCounts,
                  AList.update oid (ps @ [i]) objectIdPositions)))"

text \<open>The inner loop over \<open>positions[1..]\<close>, \<open>i\<close> counting from 1.\<close>

fun rename_occurrences ::
  "string \<Rightarrow> nat list \<Rightarrow> nat \<Rightarrow> xml list \<times> tracking \<Rightarrow> xml list \<times> tracking" where
  "rename_occurrences duplicateId [] i st = st"
| "rename_occurrences duplicateId (pos # rest) i (els, objectIdCounts, objectIdPositions) =
     (let newId = duplicateId @ ''-'' @ show_nat i in
      rename_occurrences duplicateId rest (Suc i)
        (els[pos := setAttribute (els ! pos) ''objectId'' newId],
         AList.update newId 1 objectIdCounts,
         AList.update newId [pos] objectIdPositions))"

text \<open>The loop over \<open>duplicateIds\<close>; the positions are read when the identifier's turn comes.\<close>

fun fix_duplicates :: "string list \<Rightarrow> xml list \<times> tracking \<Rightarrow> (xml list \<times> tracking) option" where
  "fix_duplicates [] st = Some st"
| "fix_duplicates (duplicateId # ds) (els, objectIdCounts, objectIdPositions) =
     (case map_of objectIdPositions duplicateId of
        None \<Rightarrow> None
      | Some positions \<Rightarrow>
          fix_duplicates ds
            (rename_occurrences duplicateId (tl positions) 1
               (els, objectIdCounts, objectIdPositions)))"

definition duplicateIds :: "nat js_object \<Rightarrow> string list" where
  "duplicateIds objectIdCounts =
     filter (\<lambda>k. case map_of objectIdCounts k of Some c \<Rightarrow> c > 1 | None \<Rightarrow> False)
       (Object_keys objectIdCounts)"

text \<open>The identifier pass on the ordered elements; \<open>None\<close> when it throws.\<close>

definition dedup_pass :: "xml list \<Rightarrow> xml list option" where
  "dedup_pass els =
     (case first_pass (map (\<lambda>(el, i). objectId_at el i) (zip els [0..<length els])) 0 ([], []) of
        None \<Rightarrow> None
      | Some (objectIdCounts, objectIdPositions) \<Rightarrow>
          map_option fst
            (fix_duplicates (duplicateIds objectIdCounts) (els, objectIdCounts, objectIdPositions)))"

definition make_event :: "xml \<Rightarrow> nat \<Rightarrow> event" where
  "make_event eventEl index =
     (let ty = attr_or eventEl ''type'' ''Unknown''; m = has_tag ''method-event'' eventEl in
      \<lparr> objectId = objectId_at eventEl index,
        time = attr_or eventEl ''time'' ''0'',
        eventType = ty,
        isMethodEvent = m,
        isTriggerEvent = (ty = ''Trigger''),
        isSourceEvent = (ty = ''Creation'' \<or> ty = ''Source''),
        signature = (case getElementText eventEl ''signature'' of None \<Rightarrow> [] | Some s \<Rightarrow> s),
        args = extractArgs eventEl,
        parentObjectIds = extractParentObjectIds eventEl,
        objectData = extractContent eventEl ''object'',
        returnData = extractContent eventEl ''return'' \<rparr>)"

text \<open>
  \<open>extractEvents\<close>. The outer \<open>catch\<close> turns a throw of the identifier pass into the
  empty list. Nothing in the construction of one event throws past its own handlers.
\<close>

definition extractEvents :: "xml \<Rightarrow> event list" where
  "extractEvents eventsElement =
     (case dedup_pass (allEvents eventsElement) of
        None \<Rightarrow> []
      | Some els \<Rightarrow> map (\<lambda>(el, i). make_event el i) (zip els [0..<length els]))"

section \<open>The graph builder\<close>

record edge =
  source :: string
  target :: string

text \<open>
  A graph node. \<open>nid\<close>, \<open>ntype\<close> are the source's \<open>id\<close> and \<open>type\<close>; the flags
  \<open>nodeIsSourceEvent\<close> and \<open>nodeIsTriggerEvent\<close> are its \<open>isSourceEvent\<close> and
  \<open>isTriggerEvent\<close> (an absent flag is falsy); \<open>objectIds\<close> lists the identifiers of the
  members of a collapsed group (\<open>details.objectIds\<close>, the identifiers of
  \<open>originalNodes\<close>); \<open>category\<close>, \<open>baseId\<close> and \<open>y\<close> are \<open>None\<close> while undefined.
  The texts shown in the node (method signature, tainted data) and the horizontal
  position are not modelled.
\<close>

record node =
  nid :: string
  ntype :: string
  label :: string
  nodeIsSourceEvent :: bool
  nodeIsTriggerEvent :: bool
  category :: "nat option"
  baseId :: "string option"
  isCollapsedGroup :: bool
  objectIds :: "string list"
  y :: "rat option"

definition isSource :: "event \<Rightarrow> bool" where
  "isSource e = (isSourceEvent e \<or> eventType e = ''Creation'' \<or> eventType e = ''Source'')"

definition isViolation :: "event \<Rightarrow> bool" where
  "isViolation e = (isTriggerEvent e \<or> eventType e = ''Trigger'')"

subsection \<open>\<open>buildNodes\<close>\<close>

definition plain_node :: "string \<Rightarrow> string \<Rightarrow> string \<Rightarrow> node" where
  "plain_node i t l =
     \<lparr> nid = i, ntype = t, label = l, nodeIsSourceEvent = False, nodeIsTriggerEvent = False,
       category = None, baseId = None, isCollapsedGroup = False, objectIds = [], y = None \<rparr>"

definition event_node :: "event \<Rightarrow> node" where
  "event_node e =
     (plain_node (objectId e) ''trace-event''
        (if isViolation e then ''Violation'' else if isSource e then ''Source'' else ''Propagator''))
     \<lparr> nodeIsSourceEvent := isSource e, nodeIsTriggerEvent := isViolation e \<rparr>"

text \<open>The request information only feeds the texts of the first two nodes.\<close>

definition buildNodes :: "event list \<Rightarrow> node list" where
  "buildNodes events =
     [plain_node ''request'' ''http-request'' ''HTTP Request'',
      plain_node ''route'' ''route'' ''Route'']
     @ map event_node events"

subsection \<open>\<open>buildEdges\<close>: the tracking objects of the first loop\<close>

text \<open>\<open>eventMap[k]\<close> is truthy for the identifiers of the events and for inherited names.\<close>

definition eventMap :: "event list \<Rightarrow> string \<Rightarrow> bool" where
  "eventMap events k = (k \<in> set (map objectId events) \<or> k \<in> set object_prototype_keys)"

text \<open>
  \<open>eventPositions[k]\<close> as a number: the last index holding identifier \<open>k\<close>. Assigning
  a number to the key \<open>__proto__\<close> has no effect, so that key never reads as a number.
\<close>

definition eventPositions :: "event list \<Rightarrow> string \<Rightarrow> nat option" where
  "eventPositions events k =
     (if k = ''__proto__'' then None
      else map_of (rev (zip (map objectId events) [0..<length events])) k)"

definition isMissingObjectId :: "string \<Rightarrow> bool" where
  "isMissingObjectId oid = (baseIdRegExp oid = None \<and> prefix ''event-'' oid)"

definition nodesMissingObjectId :: "event list \<Rightarrow> string list" where
  "nodesMissingObjectId events = filter isMissingObjectId (map objectId events)"

definition baseIdMap :: "event list \<Rightarrow> string \<Rightarrow> event list" where
  "baseIdMap events b = filter (\<lambda>e. baseIdRegExp (objectId e) = Some b) events"

text \<open>\<open>sourceNodeMap[b]\<close>: the identifier of the last source event of base \<open>b\<close>.\<close>

definition sourceNodeMap :: "event list \<Rightarrow> string \<Rightarrow> string option" where
  "sourceNodeMap events b =
     map_option objectId (first (rev (filter isSource (baseIdMap events b))))"

subsection \<open>\<open>buildEdges\<close>: neighbours in file order\<close>

definition event_at :: "event list \<Rightarrow> nat \<Rightarrow> event option" where
  "event_at events i = find (\<lambda>e. eventPositions events (objectId e) = Some i) events"

text \<open>The downward search from \<open>currentPosition - 1\<close>; \<open>route\<close> is the default.\<close>

fun find_prev :: "event list \<Rightarrow> nat \<Rightarrow> string" where
  "find_prev events 0 = ''route''"
| "find_prev events (Suc i) =
     (case event_at events i of Some e \<Rightarrow> objectId e | None \<Rightarrow> find_prev events i)"

definition prevNodeId :: "event list \<Rightarrow> string \<Rightarrow> string" where
  "prevNodeId events currentEventId =
     (case eventPositions events currentEventId of
        None \<Rightarrow> ''route''
      | Some currentPosition \<Rightarrow> find_prev events currentPosition)"

text \<open>The upward search from \<open>currentPosition + 1\<close>.\<close>

definition nextEvent :: "event list \<Rightarrow> string \<Rightarrow> event option" where
  "nextEvent events currentEventId =
     (case eventPositions events currentEventId of
        None \<Rightarrow> None
      | Some currentPosition \<Rightarrow>
          first (List.map_filter (event_at events) [Suc currentPosition..<length events]))"

subsection \<open>\<open>buildEdges\<close>: the main loop\<close>

definition sortedEvents :: "event list \<Rightarrow> event list" where
  "sortedEvents events = sort_key (\<lambda>e. parseInt_or_0 (time e)) events"

definition sourceNodes :: "event list \<Rightarrow> string list" where
  "sourceNodes events = map objectId (filter isSource (sortedEvents events))"

text \<open>
  The test of the group redirection for one parent identifier: the base identifier of the
  parent when the parent is numbered, its base has a source event and more than one event,
  an event is named after the base with the suffix \<open>-group\<close>, and the current event is not a
  source whose identifier starts with the base.
\<close>

definition group_redirect :: "event list \<Rightarrow> event \<Rightarrow> string \<Rightarrow> string option" where
  "group_redirect events ev parentId =
     (case baseIdRegExp parentId of
        None \<Rightarrow> None
      | Some parentBaseId \<Rightarrow>
          if sourceNodeMap events parentBaseId \<noteq> None
             \<and> length (baseIdMap events parentBaseId) > 1
             \<and> eventMap events (parentBaseId @ ''-group'')
             \<and> \<not> (isSource ev \<and> prefix parentBaseId (objectId ev))
          then Some parentBaseId else None)"

text \<open>One parent identifier of an event with parents: the group redirection, else the plain link.\<close>

definition parent_edges :: "event list \<Rightarrow> event \<Rightarrow> string \<Rightarrow> edge list" where
  "parent_edges events ev parentId =
     (case group_redirect events ev parentId of
        Some parentBaseId \<Rightarrow> [\<lparr> source = parentBaseId @ ''-group'', target = objectId ev \<rparr>]
      | None \<Rightarrow>
          if parentId = ''route'' \<or> parentId = ''request'' \<or> eventMap events parentId
          then [\<lparr> source = parentId, target = objectId ev \<rparr>]
          else [])"

text \<open>The nearest source before the event in the sorted order, \<open>route\<close> if there is none.\<close>

definition bestSourceId :: "event list \<Rightarrow> string \<Rightarrow> string" where
  "bestSourceId events currentEventId =
     (case find (\<lambda>e. objectId e \<in> set (sourceNodes events))
             (rev (takeWhile (\<lambda>e. objectId e \<noteq> currentEventId) (sortedEvents events))) of
        Some e \<Rightarrow> objectId e
      | None \<Rightarrow> ''route'')"

text \<open>
  One iteration of the loop over the sorted events: the edges it pushes and the entries it
  appends to \<open>nodesWithoutParents\<close> (identifier, predecessor).
\<close>

definition process_event ::
  "event list \<Rightarrow> string \<Rightarrow> event \<Rightarrow> edge list \<times> (string \<times> string) list" where
  "process_event events previousEventId ev =
     (let currentEventId = objectId ev in
      if isViolation ev then
        ([\<lparr> source = prevNodeId events currentEventId, target = currentEventId \<rparr>], [])
      else if parentObjectIds ev \<noteq> [] then
        (concat (map (parent_edges events ev) (parentObjectIds ev)), [])
      else if isSource ev then
        ([\<lparr> source = ''route'', target = currentEventId \<rparr>], [])
      else if currentEventId \<in> set (nodesMissingObjectId events) then
        (\<lparr> source = prevNodeId events currentEventId, target = currentEventId \<rparr>
           # (case nextEvent events currentEventId of
                None \<Rightarrow> []
              | Some n \<Rightarrow> [\<lparr> source = currentEventId, target = objectId n \<rparr>]),
         [])
      else if sourceNodes events \<noteq> [] \<and> currentEventId \<notin> set (sourceNodes events) then
        ([], [(currentEventId, bestSourceId events currentEventId)])
      else
        ([], [(currentEventId, previousEventId)]))"

fun main_loop ::
  "event list \<Rightarrow> string \<Rightarrow> event list \<Rightarrow> edge list \<times> (string \<times> string) list" where
  "main_loop events previousEventId [] = ([], [])"
| "main_loop events previousEventId (ev # rest) =
     (let (es, ns) = process_event events previousEventId ev;
          (es', ns') = main_loop events (objectId ev) rest
      in (es @ es', ns @ ns'))"

subsection \<open>\<open>buildEdges\<close>: the hard-wired link between the groups 853 and 951\<close>

definition group_853_951 :: edge where
  "group_853_951 = \<lparr> source = ''853-group'', target = ''951-group'' \<rparr>"

definition is_951_with_853_parent :: "event \<Rightarrow> bool" where
  "is_951_with_853_parent e =
     (sublist ''951'' (objectId e) \<and> list_ex (sublist ''853'') (parentObjectIds e))"

definition add_853_951 :: "edge list \<Rightarrow> event \<Rightarrow> edge list" where
  "add_853_951 edges e =
     (if is_951_with_853_parent e \<and> \<not> list_ex (\<lambda>d. source d = ''853-group'' \<and> target d = ''951-group'') edges
      then edges @ [group_853_951] else edges)"

definition buildEdges :: "event list \<Rightarrow> edge list" where
  "buildEdges events =
     (let (es, nodesWithoutParents) = main_loop events ''route'' (sortedEvents events);
          edges = \<lparr> source = ''request'', target = ''route'' \<rparr> # es
                  @ map (\<lambda>(i, previousId). \<lparr> source = previousId, target = i \<rparr>) nodesWithoutParents
      in foldl add_853_951 edges events)"

section \<open>The parser's entry points\<close>

record vulnerability_info =
  uuid :: string
  ruleId :: string
  applicationName :: string
  applicationId :: string
  title :: string
  link :: string

record name_value =
  nv_name :: string
  nv_value :: string

record request_info =
  requestMethod :: string
  protocol :: string
  version :: "string option"
  port :: "string option"
  uri :: string
  queryString :: "string option"
  headers :: "name_value list"
  parameters :: "name_value list"

record trace_data =
  vulnerabilityInfo :: vulnerability_info
  requestInfo :: request_info
  events :: "event list"
  nodes :: "node list"
  edges :: "edge list"

definition extractNameValues :: "xml \<Rightarrow> string \<Rightarrow> string \<Rightarrow> name_value list" where
  "extractNameValues requestElement container item =
     (case first (getElementsByTagName requestElement container) of
        None \<Rightarrow> []
      | Some c \<Rightarrow>
          map (\<lambda>el. \<lparr> nv_name = attr_or el ''name'' [], nv_value = attr_or el ''value'' [] \<rparr>)
            (getElementsByTagName c item))"

definition extractHeaders :: "xml \<Rightarrow> name_value list" where
  "extractHeaders requestElement = extractNameValues requestElement ''headers'' ''h''"

definition extractParameters :: "xml \<Rightarrow> name_value list" where
  "extractParameters requestElement = extractNameValues requestElement ''parameters'' ''p''"

text \<open>The value returned by the \<open>catch\<close> block of \<open>extractTraceData\<close>.\<close>

definition error_trace_data :: "string \<Rightarrow> trace_data" where
  "error_trace_data message =
     \<lparr> vulnerabilityInfo =
         \<lparr> uuid = ''error'', ruleId = ''error'', applicationName = ''Error'',
           applicationId = ''error'', title = ''Error: '' @ message, link = ''#'' \<rparr>,
       requestInfo =
         \<lparr> requestMethod = ''GET'', protocol = ''http'', version = None, port = None, uri = ''/'',
           queryString = None, headers = [], parameters = [] \<rparr>,
       events = [],
       nodes = [plain_node ''error'' ''http-request'' (''Error: '' @ message)],
       edges = [] \<rparr>"

text \<open>
  \<open>extractTraceData\<close>: each \<open>throw\<close> of the \<open>try\<close> block is caught by the function's own
  \<open>catch\<close>, which returns \<^const>\<open>error_trace_data\<close>. The builders do not throw on
  events made by \<^const>\<open>extractEvents\<close>.
\<close>

definition extractTraceData :: "xml \<Rightarrow> trace_data" where
  "extractTraceData xmlDoc =
     (case first (doc_getElementsByTagName xmlDoc ''finding'') of
        None \<Rightarrow> error_trace_data ''No finding element found in XML''
      | Some findingElement \<Rightarrow>
          (let rid = attr_or findingElement ''ruleId'' ''unknown'';
               requestElement = first (getElementsByTagName findingElement ''request'');
               u = (case requestElement of None \<Rightarrow> ''/'' | Some r \<Rightarrow> attr_or r ''uri'' ''/'');
               vi = \<lparr> uuid = attr_or findingElement ''uuid'' ''unknown'',
                      ruleId = rid,
                      applicationName = attr_or findingElement ''application-name'' ''unknown'',
                      applicationId = attr_or findingElement ''application-id'' ''unknown'',
                      title = attr_or findingElement ''vulnerability-title'' (rid @ '' in '' @ u),
                      link = attr_or findingElement ''link'' ''#'' \<rparr>
           in case requestElement of
                None \<Rightarrow> error_trace_data ''No request element found in XML''
              | Some r \<Rightarrow>
                  (let ri = \<lparr> requestMethod = attr_or r ''method'' ''GET'',
                              protocol = attr_or r ''protocol'' ''http'',
                              version = Some (attr_or r ''version'' ''1.1''),
                              port = Some (attr_or r ''port'' ''80''),
                              uri = attr_or r ''uri'' ''/'',
                              queryString = Some (attr_or r ''qs'' []),
                              headers = extractHeaders r,
                              parameters = extractParameters r \<rparr>
                   in case first (getElementsByTagName findingElement ''events'') of
                        None \<Rightarrow> error_trace_data ''No events element found in XML''
                      | Some eventsElement \<Rightarrow>
                          (let evs = extractEvents eventsElement in
                           \<lparr> vulnerabilityInfo = vi, requestInfo = ri, events = evs,
                             nodes = buildNodes evs, edges = buildEdges evs \<rparr>))))"

text \<open>
  \<open>parseXmlContent\<close> on the document the DOM parser produced. The only error that
  reaches the caller is the one thrown when the document holds a \<open>parsererror\<close> element.
\<close>

definition parseXmlContent :: "xml \<Rightarrow> string + trace_data" where
  "parseXmlContent xmlDoc =
     (if doc_getElementsByTagName xmlDoc ''parsererror'' \<noteq> []
      then Inl ''Error parsing XML content''
      else Inr (extractTraceData xmlDoc))"

section \<open>The renderer's grouping pass\<close>

definition nodeIsSource :: "node \<Rightarrow> bool" where
  "nodeIsSource n = (nodeIsSourceEvent n \<or> ntype n = ''Creation'' \<or> ntype n = ''Source'')"

text \<open>Step 1 stores the base identifier in every node whose identifier matches.\<close>

definition mark_baseId :: "node \<Rightarrow> node" where
  "mark_baseId n = (case baseIdRegExp (nid n) of None \<Rightarrow> n | Some b \<Rightarrow> n\<lparr> baseId := Some b \<rparr>)"

text \<open>\<open>baseIdGroups\<close>: for each base identifier, its source nodes and its other nodes.\<close>

type_synonym groups = "(node list \<times> node list) js_object"

definition add_to_group :: "groups \<Rightarrow> node \<Rightarrow> groups" where
  "add_to_group g n =
     (case baseIdRegExp (nid n) of
        None \<Rightarrow> g
      | Some b \<Rightarrow>
          (let (srcs, others) = (case map_of g b of None \<Rightarrow> ([], []) | Some p \<Rightarrow> p) in
           AList.update b
             (if nodeIsSource n then (srcs @ [mark_baseId n], others)
              else (srcs, others @ [mark_baseId n])) g))"

definition baseIdGroups :: "node list \<Rightarrow> groups" where
  "baseIdGroups ns = foldl add_to_group [] ns"

text \<open>An entry of \<open>edgesToUpdate\<close>; a removal carries no new end points.\<close>

record update_info =
  oldSource :: string
  oldTarget :: string
  remove :: bool
  newSource :: "string option"
  newTarget :: "string option"

definition has_id :: "node list \<Rightarrow> string \<Rightarrow> bool" where
  "has_id ns i = list_ex (\<lambda>n. nid n = i) ns"

text \<open>The entries one edge contributes while the group of \<open>b\<close> is collapsed.\<close>

definition edge_updates :: "string \<Rightarrow> node list \<Rightarrow> node list \<Rightarrow> edge \<Rightarrow> update_info list" where
  "edge_updates b srcs others e =
     (if has_id srcs (source e) \<and> has_id others (target e) then
        [\<lparr> oldSource = source e, oldTarget = target e, remove = True,
           newSource = None, newTarget = None \<rparr>]
      else
        (if baseIdRegExp (source e) = Some b \<and> has_id others (source e) \<and> \<not> has_id others (target e)
         then [\<lparr> oldSource = source e, oldTarget = target e, remove = False,
                 newSource = Some (b @ ''-group''), newTarget = Some (target e) \<rparr>]
         else [])
        @ (if baseIdRegExp (target e) = Some b \<and> has_id others (target e)
              \<and> \<not> has_id others (source e) \<and> \<not> has_id srcs (source e)
           then [\<lparr> oldSource = source e, oldTarget = target e, remove = False,
                   newSource = Some (source e), newTarget = Some (b @ ''-group'') \<rparr>]
           else []))"

definition representativeNode :: "string \<Rightarrow> node list \<Rightarrow> node" where
  "representativeNode b others =
     \<lparr> nid = b @ ''-group'',
       ntype = ntype (hd others),
       label = label (hd others),
       nodeIsSourceEvent = False,
       nodeIsTriggerEvent = list_ex nodeIsTriggerEvent others,
       category = category (hd others),
       baseId = None,
       isCollapsedGroup = True,
       objectIds = map nid others,
       y = None \<rparr>"

text \<open>
  What the loop over \<open>Object.keys(baseIdGroups)\<close> accumulates: \<open>nodesToRemove\<close>,
  \<open>nodesToAdd\<close>, \<open>edgesToUpdate\<close>, \<open>newEdgesToAdd\<close>.
\<close>

record collapse =
  nodesToRemove :: "string list"
  nodesToAdd :: "node list"
  edgesToUpdate :: "update_info list"
  newEdgesToAdd :: "edge list"

definition collapse_group :: "groups \<Rightarrow> edge list \<Rightarrow> collapse \<Rightarrow> string \<Rightarrow> collapse" where
  "collapse_group g es c b =
     (case map_of g b of
        None \<Rightarrow> c
      | Some (srcs, others) \<Rightarrow>
          if length others > 1 then
            \<lparr> nodesToRemove = nodesToRemove c @ map nid others,
              nodesToAdd = nodesToAdd c @ [representativeNode b others],
              edgesToUpdate = edgesToUpdate c @ concat (map (edge_updates b srcs others) es),
              newEdgesToAdd = newEdgesToAdd c
                @ map (\<lambda>s. \<lparr> source = nid s, target = b @ ''-group'' \<rparr>) srcs \<rparr>
          else c)"

definition collapse_all :: "node list \<Rightarrow> edge list \<Rightarrow> collapse" where
  "collapse_all ns es =
     foldl (collapse_group (baseIdGroups ns) es)
       \<lparr> nodesToRemove = [], nodesToAdd = [], edgesToUpdate = [], newEdgesToAdd = [] \<rparr>
       (Object_keys (baseIdGroups ns))"

definition updateInfo :: "update_info list \<Rightarrow> edge \<Rightarrow> update_info option" where
  "updateInfo us e = find (\<lambda>u. oldSource u = source e \<and> oldTarget u = target e) us"

definition keep_edge :: "update_info list \<Rightarrow> edge \<Rightarrow> bool" where
  "keep_edge us e = (case updateInfo us e of None \<Rightarrow> True | Some u \<Rightarrow> \<not> remove u)"

text \<open>An update applies when both new end points are truthy, that is present and non-empty.\<close>

definition apply_update :: "update_info list \<Rightarrow> edge \<Rightarrow> edge" where
  "apply_update us e =
     (case updateInfo us e of
        None \<Rightarrow> e
      | Some u \<Rightarrow>
          (case (newSource u, newTarget u) of
             (Some s, Some t) \<Rightarrow> if s \<noteq> [] \<and> t \<noteq> [] then \<lparr> source = s, target = t \<rparr> else e
           | _ \<Rightarrow> e))"

text \<open>The key of the duplicate filter, and the filter: the first edge of each key stays.\<close>

definition edge_key :: "edge \<Rightarrow> string" where
  "edge_key e = source e @ ''->'' @ target e"

fun uniqueEdges :: "string list \<Rightarrow> edge list \<Rightarrow> edge list" where
  "uniqueEdges seen [] = []"
| "uniqueEdges seen (e # es) =
     (if edge_key e \<in> set seen then uniqueEdges seen es
      else e # uniqueEdges (edge_key e # seen) es)"

text \<open>The closing fix: the link between the two groups, pushed when both nodes exist.\<close>

definition connect_853_951 :: "node list \<Rightarrow> edge list \<Rightarrow> edge list" where
  "connect_853_951 newNodes unique =
     (if has_id newNodes ''853-group'' \<and> has_id newNodes ''951-group''
         \<and> \<not> list_ex (\<lambda>d. source d = ''853-group'' \<and> target d = ''951-group'') unique
      then unique @ [group_853_951] else unique)"

text \<open>\<open>groupSimilarNodes\<close> on \<open>data.nodes\<close> and \<open>data.edges\<close>: the new node and edge lists.\<close>

definition groupSimilarNodes :: "node list \<Rightarrow> edge list \<Rightarrow> node list \<times> edge list" where
  "groupSimilarNodes ns es =
     (let c = collapse_all ns es;
          newNodes = filter (\<lambda>n. nid n \<notin> set (nodesToRemove c)) (map mark_baseId ns) @ nodesToAdd c;
          updatedEdges = map (apply_update (edgesToUpdate c)) (filter (keep_edge (edgesToUpdate c)) es)
                         @ newEdgesToAdd c
      in (newNodes, connect_853_951 newNodes (uniqueEdges [] updatedEdges)))"

section \<open>The corrective pass of the hierarchical layout\<close>

text \<open>\<open>parentMap.get(id)\<close>: the sources of the links into \<open>id\<close>, in link order.\<close>

definition parentMap :: "edge list \<Rightarrow> string \<Rightarrow> string list" where
  "parentMap links i = map source (filter (\<lambda>l. target l = i) links)"

text \<open>The largest \<open>y\<close> among the parents found, starting from 0; an undefined \<open>y\<close> never wins.\<close>

definition maxParentY :: "node list \<Rightarrow> string list \<Rightarrow> rat" where
  "maxParentY ns parents =
     foldl (\<lambda>m parentId.
              case find (\<lambda>n. nid n = parentId) ns of
                None \<Rightarrow> m
              | Some parentNode \<Rightarrow>
                  (case y parentNode of None \<Rightarrow> m | Some py \<Rightarrow> if py > m then py else m))
       0 parents"

text \<open>The body of the loop for the node at index \<open>i\<close>, on the positions as they are by then.\<close>

definition adjust_node :: "edge list \<Rightarrow> node list \<Rightarrow> nat \<Rightarrow> node list" where
  "adjust_node links ns i =
     (let n = ns ! i in
      if nid n = ''request'' \<or> nid n = ''route'' then ns
      else
        (let parents = parentMap links (nid n); m = maxParentY ns parents in
         if parents \<noteq> [] \<and> m > 0 \<and> (case y n of None \<Rightarrow> False | Some ny \<Rightarrow> ny \<le> m + 50)
         then ns[i := n\<lparr> y := Some (m + 80) \<rparr>]
         else ns))"

definition corrective_pass :: "edge list \<Rightarrow> node list \<Rightarrow> node list" where
  "corrective_pass links ns = foldl (adjust_node links) ns [0..<length ns]"

section \<open>Predicates of the statements\<close>

text \<open>
  The message of the first structural element that is absent: the \<open>finding\<close> element
  of the document, else the \<open>request\<close> element below it, else the \<open>events\<close> element
  below it; \<open>None\<close> when all three are present.
\<close>

definition missing_message :: "xml \<Rightarrow> string option" where
  "missing_message xmlDoc =
     (case first (doc_getElementsByTagName xmlDoc ''finding'') of
        None \<Rightarrow> Some ''No finding element found in XML''
      | Some f \<Rightarrow>
          if first (getElementsByTagName f ''request'') = None
          then Some ''No request element found in XML''
          else if first (getElementsByTagName f ''events'') = None
          then Some ''No events element found in XML''
          else None)"





text \<open>The members of the group of a base identifier among the nodes: sources and others.\<close>

definition group_sources :: "node list \<Rightarrow> string \<Rightarrow> node list" where
  "group_sources ns b = filter (\<lambda>n. baseIdRegExp (nid n) = Some b \<and> nodeIsSource n) ns"

definition group_others :: "node list \<Rightarrow> string \<Rightarrow> node list" where
  "group_others ns b = filter (\<lambda>n. baseIdRegExp (nid n) = Some b \<and> \<not> nodeIsSource n) ns"

section \<open>Evaluation of decimal numerals\<close>

lemma show_nat_bounded: "n \<le> k \<Longrightarrow> show_nat n = show_digits k n"
proof (induction k arbitrary: n)
  case 0
  then show ?case by (simp add: show_nat.simps)
next
  case (Suc k)
  show ?case
  proof (cases "n < 10")
    case True
    then show ?thesis by (simp add: show_nat.simps)
  next
    case False
    then have "n div 10 \<le> k" using Suc.prems by simp
    then have "show_nat (n div 10) = show_digits k (n div 10)" by (rule Suc.IH)
    then show ?thesis using False by (simp add: show_nat.simps [of n])
  qed
qed

lemma show_nat_code [code]: "show_nat n = show_digits n n"
  by (rule show_nat_bounded) simp

section \<open>The identifier pass of the parser\<close>

lemma set_Object_keys: "set (Object_keys obj) = fst ` set obj"
  by (auto simp: Object_keys_def)

lemma distinct_Object_keys: "distinct (map fst obj) \<Longrightarrow> distinct (Object_keys obj)"
  by (auto simp: Object_keys_def)

text \<open>
  C1. The claim: after the identifier pass no two events share an \<open>objectId\<close>. On the
  identifiers \<open>42\<close>, \<open>42\<close>, \<open>42-1\<close> the pass renames the second event to \<open>42-1\<close>, the
  identifier the third event already carries, and the returned events are
  \<open>42\<close>, \<open>42-1\<close>, \<open>42-1\<close>: two events share an identifier.
\<close>

theorem dedup_pass_collision:
  "map objectId
     (extractEvents
        (Elem ''events'' []
           [Elem ''propagation-event'' [(''objectId'', ''42'')] [],
            Elem ''propagation-event'' [(''objectId'', ''42'')] [],
            Elem ''propagation-event'' [(''objectId'', ''42-1'')] []]))
   = [''42'', ''42-1'', ''42-1'']"
  by code_simp

text \<open>
  C2. The claim: every identifier that occurs more than once keeps its first occurrence
  and has its \<open>k\<close>-th occurrence renamed to \<open>id-(k-1)\<close>. On the identifiers
  \<open>42\<close>, \<open>42\<close>, \<open>42-1\<close>, \<open>42-1\<close> the renaming of the second \<open>42\<close> overwrites the
  positions recorded for \<open>42-1\<close>, so when the turn of \<open>42-1\<close> comes its second
  occurrence is not renamed to \<open>42-1-1\<close>: the fourth event keeps \<open>42-1\<close>.
\<close>

theorem dedup_pass_skips_clobbered_id:
  "map objectId
     (extractEvents
        (Elem ''events'' []
           [Elem ''propagation-event'' [(''objectId'', ''42'')] [],
            Elem ''propagation-event'' [(''objectId'', ''42'')] [],
            Elem ''propagation-event'' [(''objectId'', ''42-1'')] [],
            Elem ''propagation-event'' [(''objectId'', ''42-1'')] []]))
   = [''42'', ''42-1'', ''42-1'', ''42-1'']"
  by code_simp

section \<open>Missing structural elements\<close>

text \<open>
  C3, as claimed: a document without a \<open>finding\<close> element makes the parse fail with an
  error and return no node collection. It fails here: the parse returns a value, and the
  value holds a node list with one node.
\<close>

theorem missing_finding_counterexample:
  "parseXmlContent (Elem ''trace'' [] [])
     = Inr (error_trace_data ''No finding element found in XML'')
   \<and> map nid (nodes (error_trace_data ''No finding element found in XML'')) = [''error'']"
  by (simp add: parseXmlContent_def extractTraceData_def doc_getElementsByTagName_def
      first_def error_trace_data_def plain_node_def)

text \<open>
  C3, amended: when the \<open>finding\<close> element, or the \<open>request\<close> or \<open>events\<close> element below
  it, is absent, \<open>extractTraceData\<close> returns the placeholder trace data carrying the
  message of the first absent element: no events, no edges, and a node list holding the
  single placeholder node \<open>error\<close>. For a document without \<open>parsererror\<close> element
  that placeholder is what \<open>parseXmlContent\<close> returns to the caller.
\<close>

theorem missing_element_placeholder:
  assumes "missing_message xmlDoc = Some m"
  shows "extractTraceData xmlDoc = error_trace_data m
     \<and> events (extractTraceData xmlDoc) = []
     \<and> edges (extractTraceData xmlDoc) = []
     \<and> map nid (nodes (extractTraceData xmlDoc)) = [''error'']
     \<and> (doc_getElementsByTagName xmlDoc ''parsererror'' = []
          \<longrightarrow> parseXmlContent xmlDoc = Inr (error_trace_data m))"
proof -
  have 1: "extractTraceData xmlDoc = error_trace_data m"
    using assms
    by (auto simp: missing_message_def extractTraceData_def Let_def
        split: option.splits if_splits)
  show ?thesis
    by (simp add: 1 parseXmlContent_def) (simp add: error_trace_data_def plain_node_def)
qed

theorem missing_element_placeholder_witness:
  "missing_message (Elem ''finding'' [] [Elem ''request'' [] []])
     = Some ''No events element found in XML''
   \<and> parseXmlContent (Elem ''finding'' [] [Elem ''request'' [] []])
       = Inr (error_trace_data ''No events element found in XML'')"
proof -
  have h: "missing_message (Elem ''finding'' [] [Elem ''request'' [] []])
             = Some ''No events element found in XML''"
    by (simp add: missing_message_def doc_getElementsByTagName_def getElementsByTagName_def
        first_def)
  have p: "doc_getElementsByTagName (Elem ''finding'' [] [Elem ''request'' [] []]) ''parsererror'' = []"
    by (simp add: doc_getElementsByTagName_def)
  show ?thesis using missing_element_placeholder [OF h] h p by simp
qed

section \<open>Decoding failures\<close>




lemma descendants_setAttribute [simp]: "descendants (setAttribute x n v) = descendants x"
  by (cases x) simp_all














section \<open>Edges of the graph builder\<close>

lemma uniqueEdges_keys:
  "distinct (map edge_key (uniqueEdges seen es))
   \<and> set (map edge_key (uniqueEdges seen es)) \<inter> set seen = {}"
proof (induction es arbitrary: seen)
  case Nil
  show ?case by simp
next
  case (Cons e es)
  show ?case
  proof (cases "edge_key e \<in> set seen")
    case True
    then show ?thesis using Cons.IH [of seen] by simp
  next
    case False
    then show ?thesis using Cons.IH [of "edge_key e # seen"] by auto
  qed
qed

lemma distinct_uniqueEdges: "distinct (uniqueEdges seen es)"
  using uniqueEdges_keys [of seen es] by (simp add: distinct_map)

lemma list_ex_853_951:
  "list_ex (\<lambda>d. source d = ''853-group'' \<and> target d = ''951-group'') es
     \<longleftrightarrow> group_853_951 \<in> set es"
proof
  assume "list_ex (\<lambda>d. source d = ''853-group'' \<and> target d = ''951-group'') es"
  then obtain d where d: "d \<in> set es" "source d = ''853-group''" "target d = ''951-group''"
    by (auto simp: list_ex_iff)
  have "d = group_853_951" using d(2,3) by (cases d) (simp add: group_853_951_def)
  then show "group_853_951 \<in> set es" using d(1) by simp
next
  assume "group_853_951 \<in> set es"
  moreover have "source group_853_951 = ''853-group'' \<and> target group_853_951 = ''951-group''"
    by (simp add: group_853_951_def)
  ultimately show "list_ex (\<lambda>d. source d = ''853-group'' \<and> target d = ''951-group'') es"
    unfolding list_ex_iff by blast
qed

lemma distinct_connect_853_951: "distinct es \<Longrightarrow> distinct (connect_853_951 ns es)"
  by (simp add: connect_853_951_def list_ex_853_951)

lemma foldl_add_853_951_mono: "set es \<subseteq> set (foldl add_853_951 es evs)"
proof (induction evs arbitrary: es)
  case Nil
  show ?case by simp
next
  case (Cons e evs)
  have "set es \<subseteq> set (add_853_951 es e)" by (auto simp: add_853_951_def)
  also have "\<dots> \<subseteq> set (foldl add_853_951 (add_853_951 es e) evs)" by (rule Cons.IH)
  finally show ?case by simp
qed

lemma foldl_add_853_951_present:
  "e \<in> set evs \<Longrightarrow> is_951_with_853_parent e \<Longrightarrow> group_853_951 \<in> set (foldl add_853_951 es evs)"
proof (induction evs arbitrary: es)
  case Nil
  then show ?case by simp
next
  case (Cons a evs)
  show ?case
  proof (cases "is_951_with_853_parent a")
    case True
    then have "group_853_951 \<in> set (add_853_951 es a)"
      by (auto simp: add_853_951_def list_ex_853_951)
    then show ?thesis using foldl_add_853_951_mono [of "add_853_951 es a" evs] by auto
  next
    case False
    then have "e \<in> set evs" using Cons.prems by auto
    then show ?thesis using Cons.IH Cons.prems(2) by simp
  qed
qed

lemma main_loop_covers:
  "e \<in> set srt \<Longrightarrow>
   \<exists>prev. set (fst (process_event evs prev e)) \<subseteq> set (fst (main_loop evs p srt))
        \<and> set (snd (process_event evs prev e)) \<subseteq> set (snd (main_loop evs p srt))"
proof (induction srt arbitrary: p)
  case Nil
  then show ?case by simp
next
  case (Cons a srt)
  show ?case
  proof (cases "e = a")
    case True
    have "set (fst (process_event evs p e)) \<subseteq> set (fst (main_loop evs p (a # srt)))
        \<and> set (snd (process_event evs p e)) \<subseteq> set (snd (main_loop evs p (a # srt)))"
      using True by (auto simp: Let_def split: prod.splits)
    then show ?thesis by blast
  next
    case False
    then have "e \<in> set srt" using Cons.prems by simp
    from Cons.IH [OF this, of "objectId a"] obtain prev where
      "set (fst (process_event evs prev e)) \<subseteq> set (fst (main_loop evs (objectId a) srt))"
      "set (snd (process_event evs prev e)) \<subseteq> set (snd (main_loop evs (objectId a) srt))"
      by blast
    then have "set (fst (process_event evs prev e)) \<subseteq> set (fst (main_loop evs p (a # srt)))
        \<and> set (snd (process_event evs prev e)) \<subseteq> set (snd (main_loop evs p (a # srt)))"
      by (auto simp: Let_def split: prod.splits)
    then show ?thesis by blast
  qed
qed

lemma buildEdges_contains:
  "set (\<lparr> source = ''request'', target = ''route'' \<rparr> # fst (main_loop evs ''route'' (sortedEvents evs))
        @ map (\<lambda>(i, previousId). \<lparr> source = previousId, target = i \<rparr>)
            (snd (main_loop evs ''route'' (sortedEvents evs))))
   \<subseteq> set (buildEdges evs)"
  unfolding buildEdges_def Let_def
  by (simp only: split_beta) (rule foldl_add_853_951_mono)

lemma nth_not_proto:
  "''__proto__'' \<notin> set (map objectId evs) \<Longrightarrow> j < length evs \<Longrightarrow> objectId (evs ! j) \<noteq> ''__proto__''"
  by (metis nth_map nth_mem length_map)

lemma eventPositions_iff:
  assumes "distinct (map objectId evs)" and "k \<noteq> ''__proto__''"
  shows "eventPositions evs k = Some i \<longleftrightarrow> i < length evs \<and> objectId (evs ! i) = k"
proof -
  have d: "distinct (map fst (rev (zip (map objectId evs) [0..<length evs])))"
    using assms(1) by (simp add: rev_map [symmetric])
  have "eventPositions evs k = Some i \<longleftrightarrow> (k, i) \<in> set (zip (map objectId evs) [0..<length evs])"
    using assms(2) d by (simp add: eventPositions_def)
  also have "\<dots> \<longleftrightarrow> i < length evs \<and> objectId (evs ! i) = k"
    by (force simp: set_zip)
  finally show ?thesis .
qed

lemma event_at_nth:
  assumes "distinct (map objectId evs)" and "''__proto__'' \<notin> set (map objectId evs)"
    and "i < length evs"
  shows "event_at evs i = Some (evs ! i)"
proof -
  have P: "\<And>j. j < length evs \<Longrightarrow>
      (eventPositions evs (objectId (evs ! j)) = Some i) = (j = i)"
  proof -
    fix j assume j: "j < length evs"
    then have "objectId (evs ! j) \<noteq> ''__proto__''" using assms(2) by (rule nth_not_proto [rotated])
    then have "eventPositions evs (objectId (evs ! j)) = Some i
        \<longleftrightarrow> i < length evs \<and> objectId (evs ! i) = objectId (evs ! j)"
      using eventPositions_iff [OF assms(1)] by simp
    also have "\<dots> \<longleftrightarrow> j = i"
      using assms(1,3) j by (auto simp: distinct_conv_nth)
    finally show "(eventPositions evs (objectId (evs ! j)) = Some i) = (j = i)" .
  qed
  show ?thesis
    unfolding event_at_def find_Some_iff
    using assms(3) P by (intro exI [of _ i]) auto
qed

lemma find_prev_Suc:
  assumes "distinct (map objectId evs)" and "''__proto__'' \<notin> set (map objectId evs)"
    and "i < length evs"
  shows "find_prev evs (Suc i) = objectId (evs ! i)"
  using event_at_nth [OF assms] by simp

lemma prevNodeId_nth:
  assumes "distinct (map objectId evs)" and "''__proto__'' \<notin> set (map objectId evs)"
    and "p < length evs"
  shows "prevNodeId evs (objectId (evs ! p))
           = (if p = 0 then ''route'' else objectId (evs ! (p - 1)))"
proof -
  have "objectId (evs ! p) \<noteq> ''__proto__''" using assms(2,3) by (rule nth_not_proto)
  then have pos: "eventPositions evs (objectId (evs ! p)) = Some p"
    using eventPositions_iff [OF assms(1)] assms(3) by simp
  show ?thesis
  proof (cases p)
    case 0
    then show ?thesis using pos by (simp add: prevNodeId_def)
  next
    case (Suc q)
    then have "q < length evs" using assms(3) by simp
    from find_prev_Suc [OF assms(1,2) this] show ?thesis using pos Suc by (simp add: prevNodeId_def)
  qed
qed

lemma nextEvent_nth:
  assumes "distinct (map objectId evs)" and "''__proto__'' \<notin> set (map objectId evs)"
    and "q < length evs"
  shows "nextEvent evs (objectId (evs ! q))
           = (if Suc q < length evs then Some (evs ! Suc q) else None)"
proof -
  have "objectId (evs ! q) \<noteq> ''__proto__''" using assms(2,3) by (rule nth_not_proto)
  then have pos: "eventPositions evs (objectId (evs ! q)) = Some q"
    using eventPositions_iff [OF assms(1)] assms(3) by simp
  show ?thesis
  proof (cases "Suc q < length evs")
    case True
    then have "[Suc q..<length evs] = Suc q # [Suc (Suc q)..<length evs]"
      by (simp add: upt_conv_Cons)
    then show ?thesis
      using pos True event_at_nth [OF assms(1,2) True]
      by (simp add: nextEvent_def List.map_filter_simps first_def)
  next
    case False
    then show ?thesis using pos by (simp add: nextEvent_def List.map_filter_simps first_def)
  qed
qed

lemma main_loop_fst_sound:
  "d \<in> set (fst (main_loop evs p srt)) \<Longrightarrow>
   \<exists>e \<in> set srt. \<exists>prev. d \<in> set (fst (process_event evs prev e))"
proof (induction srt arbitrary: p)
  case Nil
  then show ?case by simp
next
  case (Cons a srt)
  from Cons.prems have "d \<in> set (fst (process_event evs p a))
      \<or> d \<in> set (fst (main_loop evs (objectId a) srt))"
    by (auto simp: Let_def split: prod.splits)
  then show ?case
  proof
    assume "d \<in> set (fst (process_event evs p a))"
    then show ?thesis by auto
  next
    assume "d \<in> set (fst (main_loop evs (objectId a) srt))"
    from Cons.IH [OF this] show ?thesis by auto
  qed
qed

lemma main_loop_snd_sound:
  "q \<in> set (snd (main_loop evs p srt)) \<Longrightarrow>
   \<exists>e \<in> set srt. \<exists>prev. q \<in> set (snd (process_event evs prev e))"
proof (induction srt arbitrary: p)
  case Nil
  then show ?case by simp
next
  case (Cons a srt)
  from Cons.prems have "q \<in> set (snd (process_event evs p a))
      \<or> q \<in> set (snd (main_loop evs (objectId a) srt))"
    by (auto simp: Let_def split: prod.splits)
  then show ?case
  proof
    assume "q \<in> set (snd (process_event evs p a))"
    then show ?thesis by auto
  next
    assume "q \<in> set (snd (main_loop evs (objectId a) srt))"
    from Cons.IH [OF this] show ?thesis by auto
  qed
qed

lemma foldl_add_853_951_upper:
  "set (foldl add_853_951 es evs) \<subseteq> insert group_853_951 (set es)"
proof (induction evs arbitrary: es)
  case Nil
  show ?case by auto
next
  case (Cons e evs)
  have "set (add_853_951 es e) \<subseteq> insert group_853_951 (set es)"
    by (auto simp: add_853_951_def)
  then show ?case using Cons.IH [of "add_853_951 es e"] by auto
qed

lemma parent_edges_targets: "d \<in> set (parent_edges evs e p) \<Longrightarrow> target d = objectId e"
  by (auto simp: parent_edges_def split: option.splits if_splits)

lemma process_event_edges:
  assumes "d \<in> set (fst (process_event evs prev e))"
  shows "target d = objectId e
       \<or> (\<exists>n. nextEvent evs (objectId e) = Some n \<and> source d = objectId e \<and> target d = objectId n)"
proof (cases "nextEvent evs (objectId e)")
  case None
  then show ?thesis using assms
    by (auto simp: process_event_def Let_def dest: parent_edges_targets split: if_splits)
next
  case (Some n)
  then show ?thesis using assms
    by (auto simp: process_event_def Let_def dest: parent_edges_targets split: if_splits)
qed

lemma process_event_orphans:
  "q \<in> set (snd (process_event evs prev e)) \<Longrightarrow> fst q = objectId e"
  by (auto simp: process_event_def Let_def split: if_splits)

lemma same_index:
  assumes "distinct (map objectId evs)" and "p < length evs" and "q < length evs"
    and "objectId (evs ! q) = objectId (evs ! p)"
  shows "q = p"
proof -
  have lq: "q < length (map objectId evs)" and lp: "p < length (map objectId evs)"
    using assms(2,3) by simp_all
  have "map objectId evs ! q = map objectId evs ! p" using assms(2,3,4) by simp
  then show ?thesis using nth_eq_iff_index_eq [OF assms(1) lq lp] by blast
qed

lemma same_objectId:
  assumes "distinct (map objectId evs)" and "p < length evs" and "e \<in> set evs"
    and "objectId e = objectId (evs ! p)"
  shows "e = evs ! p"
proof -
  from assms(3) obtain q where q: "q < length evs" "e = evs ! q" by (auto simp: in_set_conv_nth)
  have "objectId (evs ! q) = objectId (evs ! p)" using assms(4) q(2) by simp
  then have "q = p" by (rule same_index [OF assms(1,2) q(1)])
  then show ?thesis using q(2) by simp
qed

lemma buildEdges_upper:
  "set (buildEdges evs)
   \<subseteq> insert group_853_951
       (set (\<lparr> source = ''request'', target = ''route'' \<rparr> # fst (main_loop evs ''route'' (sortedEvents evs))
        @ map (\<lambda>(i, previousId). \<lparr> source = previousId, target = i \<rparr>)
            (snd (main_loop evs ''route'' (sortedEvents evs)))))"
  unfolding buildEdges_def Let_def
  by (simp only: split_beta) (rule foldl_add_853_951_upper)

lemma buildEdges_cases:
  assumes "d \<in> set (buildEdges evs)"
  shows "d = group_853_951 \<or> d = \<lparr> source = ''request'', target = ''route'' \<rparr>
        \<or> d \<in> set (fst (main_loop evs ''route'' (sortedEvents evs)))
        \<or> (\<exists>q \<in> set (snd (main_loop evs ''route'' (sortedEvents evs))). d = \<lparr> source = snd q, target = fst q \<rparr>)"
proof -
  from assms buildEdges_upper [of evs]
  have "d \<in> insert group_853_951
       (set (\<lparr> source = ''request'', target = ''route'' \<rparr> # fst (main_loop evs ''route'' (sortedEvents evs))
        @ map (\<lambda>(i, previousId). \<lparr> source = previousId, target = i \<rparr>)
            (snd (main_loop evs ''route'' (sortedEvents evs)))))" by blast
  then show ?thesis by (auto simp: split_beta)
qed







text \<open>
  C6, as claimed: the edge list returned by the graph builder has no pair twice. It fails:
  an event without identifier and without parents is linked to its successor, and the
  trigger that follows it is linked from its predecessor, which is the same pair.
\<close>

theorem buildEdges_duplicate_counterexample:
  "buildEdges
     [\<lparr> objectId = ''event-0'', time = ''0'', eventType = ''P2O'', isMethodEvent = False,
        isTriggerEvent = False, isSourceEvent = False, signature = [], args = [],
        parentObjectIds = [], objectData = None, returnData = None \<rparr>,
      \<lparr> objectId = ''5'', time = ''0'', eventType = ''Trigger'', isMethodEvent = True,
        isTriggerEvent = True, isSourceEvent = False, signature = [], args = [],
        parentObjectIds = [], objectData = None, returnData = None \<rparr>]
   = [\<lparr> source = ''request'', target = ''route'' \<rparr>,
      \<lparr> source = ''route'', target = ''event-0'' \<rparr>,
      \<lparr> source = ''event-0'', target = ''5'' \<rparr>,
      \<lparr> source = ''event-0'', target = ''5'' \<rparr>]"
  by code_simp

text \<open>
  C6, amended: \<open>buildEdges\<close> removes no duplicates; the grouping pass of the renderer
  does, and the edge list it leaves has no pair twice.
\<close>

theorem groupSimilarNodes_edges_distinct: "distinct (snd (groupSimilarNodes ns es))"
  by (simp add: groupSimilarNodes_def Let_def distinct_connect_853_951 distinct_uniqueEdges)






text \<open>
  C10: when an event whose identifier contains \<open>951\<close> lists a parent containing \<open>853\<close>,
  the edge from \<open>853-group\<close> to \<open>951-group\<close> is in the result of \<open>buildEdges\<close>, whatever
  the nodes are; the grouping pass pushes that edge only when both group nodes exist.
\<close>

theorem hardwired_853_951_edge:
  "(list_ex is_951_with_853_parent evs \<longrightarrow> group_853_951 \<in> set (buildEdges evs))
   \<and> (connect_853_951 ns es \<noteq> es \<longrightarrow> has_id ns ''853-group'' \<and> has_id ns ''951-group'')"
proof
  show "list_ex is_951_with_853_parent evs \<longrightarrow> group_853_951 \<in> set (buildEdges evs)"
    unfolding buildEdges_def Let_def
    by (simp only: split_beta) (auto simp: list_ex_iff intro: foldl_add_853_951_present)
  show "connect_853_951 ns es \<noteq> es \<longrightarrow> has_id ns ''853-group'' \<and> has_id ns ''951-group''"
    by (simp add: connect_853_951_def)
qed

theorem hardwired_853_951_edge_witness:
  "list_ex is_951_with_853_parent
     [\<lparr> objectId = ''951'', time = ''0'', eventType = ''P2O'', isMethodEvent = False,
        isTriggerEvent = False, isSourceEvent = False, signature = [], args = [],
        parentObjectIds = [''853''], objectData = None, returnData = None \<rparr>]
   \<and> group_853_951 \<in> set (buildEdges
     [\<lparr> objectId = ''951'', time = ''0'', eventType = ''P2O'', isMethodEvent = False,
        isTriggerEvent = False, isSourceEvent = False, signature = [], args = [],
        parentObjectIds = [''853''], objectData = None, returnData = None \<rparr>])
   \<and> map nid (buildNodes
     [\<lparr> objectId = ''951'', time = ''0'', eventType = ''P2O'', isMethodEvent = False,
        isTriggerEvent = False, isSourceEvent = False, signature = [], args = [],
        parentObjectIds = [''853''], objectData = None, returnData = None \<rparr>])
     = [''request'', ''route'', ''951'']
   \<and> connect_853_951
        [plain_node ''853-group'' ''trace-event'' ''Propagator'',
         plain_node ''951-group'' ''trace-event'' ''Propagator''] []
       \<noteq> []
   \<and> has_id [plain_node ''853-group'' ''trace-event'' ''Propagator'',
         plain_node ''951-group'' ''trace-event'' ''Propagator''] ''853-group''
   \<and> has_id [plain_node ''853-group'' ''trace-event'' ''Propagator'',
         plain_node ''951-group'' ''trace-event'' ''Propagator''] ''951-group''"
proof -
  have h: "list_ex is_951_with_853_parent
     [\<lparr> objectId = ''951'', time = ''0'', eventType = ''P2O'', isMethodEvent = False,
        isTriggerEvent = False, isSourceEvent = False, signature = [], args = [],
        parentObjectIds = [''853''], objectData = None, returnData = None \<rparr>]"
    by code_simp
  have n: "map nid (buildNodes
     [\<lparr> objectId = ''951'', time = ''0'', eventType = ''P2O'', isMethodEvent = False,
        isTriggerEvent = False, isSourceEvent = False, signature = [], args = [],
        parentObjectIds = [''853''], objectData = None, returnData = None \<rparr>])
     = [''request'', ''route'', ''951'']"
    by code_simp
  have c: "connect_853_951
        [plain_node ''853-group'' ''trace-event'' ''Propagator'',
         plain_node ''951-group'' ''trace-event'' ''Propagator''] []
       \<noteq> []"
    by code_simp
  show ?thesis
    using hardwired_853_951_edge
      [of "[\<lparr> objectId = ''951'', time = ''0'', eventType = ''P2O'', isMethodEvent = False,
        isTriggerEvent = False, isSourceEvent = False, signature = [], args = [],
        parentObjectIds = [''853''], objectData = None, returnData = None \<rparr>]"
        "[plain_node ''853-group'' ''trace-event'' ''Propagator'',
         plain_node ''951-group'' ''trace-event'' ''Propagator'']" "[]"]
      h n c
    by simp
qed


lemma trigger_step:
  assumes "distinct (map objectId evs)" and "''__proto__'' \<notin> set (map objectId evs)"
    and "p < length evs" and "isViolation (evs ! p)"
  shows "process_event evs prev (evs ! p)
           = ([\<lparr> source = (if p = 0 then ''route'' else objectId (evs ! (p - 1))),
                 target = objectId (evs ! p) \<rparr>], [])"
  using assms(4) prevNodeId_nth [OF assms(1,2,3)] by (simp add: process_event_def Let_def)

lemma trigger_only_edge:
  assumes "distinct (map objectId evs)" and "''__proto__'' \<notin> set (map objectId evs)"
    and "p < length evs" and "isViolation (evs ! p)"
    and d: "d \<in> set (buildEdges evs)" and t: "target d = objectId (evs ! p)"
  shows "source d = (if p = 0 then ''route'' else objectId (evs ! (p - 1)))
       \<or> d = \<lparr> source = ''request'', target = ''route'' \<rparr> \<or> d = group_853_951"
proof -
  note pe = trigger_step [OF assms(1-4)]
  from buildEdges_cases [OF d]
  consider (g) "d = group_853_951" | (r) "d = \<lparr> source = ''request'', target = ''route'' \<rparr>"
    | (l) "d \<in> set (fst (main_loop evs ''route'' (sortedEvents evs)))"
    | (o) q where "q \<in> set (snd (main_loop evs ''route'' (sortedEvents evs)))"
        "d = \<lparr> source = snd q, target = fst q \<rparr>"
    by blast
  then show ?thesis
  proof cases
    case g then show ?thesis by simp
  next
    case r then show ?thesis by simp
  next
    case l
    from main_loop_fst_sound [OF l] obtain e pr where e: "e \<in> set evs"
      and de: "d \<in> set (fst (process_event evs pr e))"
      by (auto simp: sortedEvents_def)
    from process_event_edges [OF de] show ?thesis
    proof
      assume "target d = objectId e"
      then have "objectId e = objectId (evs ! p)" using t by simp
      then have "e = evs ! p" by (rule same_objectId [OF assms(1,3) e])
      then have "d \<in> set (fst (process_event evs pr (evs ! p)))" using de by simp
      then show ?thesis unfolding pe [of pr] by simp
    next
      assume "\<exists>n. nextEvent evs (objectId e) = Some n \<and> source d = objectId e \<and> target d = objectId n"
      then obtain n where n: "nextEvent evs (objectId e) = Some n" "source d = objectId e"
        "target d = objectId n"
        by blast
      from e obtain q where q: "q < length evs" "e = evs ! q" by (auto simp: in_set_conv_nth)
      from n(1) nextEvent_nth [OF assms(1,2) q(1)] q(2)
      have sq: "Suc q < length evs" and nn: "n = evs ! Suc q" by (auto split: if_splits)
      have "objectId (evs ! Suc q) = objectId (evs ! p)" using n(3) nn t by simp
      then have "Suc q = p" by (rule same_index [OF assms(1,3) sq])
      then have "p \<noteq> 0" and "q = p - 1" by simp_all
      then show ?thesis using n(2) q(2) by simp
    qed
  next
    case o
    from main_loop_snd_sound [OF o(1)] obtain e pr where e: "e \<in> set evs"
      and qe: "q \<in> set (snd (process_event evs pr e))"
      by (auto simp: sortedEvents_def)
    from process_event_orphans [OF qe] o(2) t have "objectId e = objectId (evs ! p)" by simp
    then have "e = evs ! p" by (rule same_objectId [OF assms(1,3) e])
    then have "q \<in> set (snd (process_event evs pr (evs ! p)))" using qe by simp
    then show ?thesis unfolding pe [of pr] by simp
  qed
qed

text \<open>
  C5, as claimed: a trigger gets exactly one incoming edge, from the event just before it
  in document order, and its \<open>parentObjectIds\<close> play no part. It fails in three ways. The
  predecessor is looked up by identifier: in the first trace the identifier pass renames the
  second \<open>42\<close> to \<open>42-1\<close>, which the second event bears already, and the trigger \<open>9\<close> is
  linked from \<open>42\<close>, not from the event \<open>42-1\<close> just before it. In the second trace the
  event before the trigger has no identifier and is linked to its successor, so the edge
  into the trigger is there twice. In the third trace the trigger \<open>951-group\<close> lists the
  parent \<open>853\<close>, for which \<open>buildEdges\<close> adds the edge from \<open>853-group\<close> into it.
\<close>

theorem trigger_edge_counterexample:
  "map objectId (extractEvents
     (Elem ''events'' []
        [Elem ''method-event'' [(''objectId'', ''42''), (''time'', ''1''), (''type'', ''Creation'')] [],
         Elem ''method-event'' [(''objectId'', ''42-1''), (''time'', ''2''), (''type'', ''P2O'')] [],
         Elem ''method-event'' [(''objectId'', ''9''), (''time'', ''3''), (''type'', ''Trigger'')] [],
         Elem ''method-event'' [(''objectId'', ''42''), (''time'', ''4''), (''type'', ''P2O'')] []]))
   = [''42'', ''42-1'', ''9'', ''42-1'']
   \<and> buildEdges (extractEvents
     (Elem ''events'' []
        [Elem ''method-event'' [(''objectId'', ''42''), (''time'', ''1''), (''type'', ''Creation'')] [],
         Elem ''method-event'' [(''objectId'', ''42-1''), (''time'', ''2''), (''type'', ''P2O'')] [],
         Elem ''method-event'' [(''objectId'', ''9''), (''time'', ''3''), (''type'', ''Trigger'')] [],
         Elem ''method-event'' [(''objectId'', ''42''), (''time'', ''4''), (''type'', ''P2O'')] []]))
   = [\<lparr> source = ''request'', target = ''route'' \<rparr>,
      \<lparr> source = ''route'', target = ''42'' \<rparr>,
      \<lparr> source = ''42'', target = ''9'' \<rparr>,
      \<lparr> source = ''42'', target = ''42-1'' \<rparr>,
      \<lparr> source = ''42'', target = ''42-1'' \<rparr>]
   \<and> map objectId (extractEvents
     (Elem ''events'' []
        [Elem ''propagation-event'' [(''time'', ''1''), (''type'', ''P2O'')] [],
         Elem ''method-event'' [(''objectId'', ''5''), (''time'', ''2''), (''type'', ''Trigger'')] []]))
   = [''event-0'', ''5'']
   \<and> buildEdges (extractEvents
     (Elem ''events'' []
        [Elem ''propagation-event'' [(''time'', ''1''), (''type'', ''P2O'')] [],
         Elem ''method-event'' [(''objectId'', ''5''), (''time'', ''2''), (''type'', ''Trigger'')] []]))
   = [\<lparr> source = ''request'', target = ''route'' \<rparr>,
      \<lparr> source = ''route'', target = ''event-0'' \<rparr>,
      \<lparr> source = ''event-0'', target = ''5'' \<rparr>,
      \<lparr> source = ''event-0'', target = ''5'' \<rparr>]
   \<and> map objectId (extractEvents
     (Elem ''events'' []
        [Elem ''method-event'' [(''objectId'', ''853''), (''time'', ''1''), (''type'', ''Creation'')] [],
         Elem ''method-event'' [(''objectId'', ''951-group''), (''time'', ''2''), (''type'', ''Trigger'')]
           [Elem ''parentObjectIds'' [] [Elem ''id'' [] [Text ''853'']]]]))
   = [''853'', ''951-group'']
   \<and> buildEdges (extractEvents
     (Elem ''events'' []
        [Elem ''method-event'' [(''objectId'', ''853''), (''time'', ''1''), (''type'', ''Creation'')] [],
         Elem ''method-event'' [(''objectId'', ''951-group''), (''time'', ''2''), (''type'', ''Trigger'')]
           [Elem ''parentObjectIds'' [] [Elem ''id'' [] [Text ''853'']]]]))
   = [\<lparr> source = ''request'', target = ''route'' \<rparr>,
      \<lparr> source = ''route'', target = ''853'' \<rparr>,
      \<lparr> source = ''853'', target = ''951-group'' \<rparr>,
      \<lparr> source = ''853-group'', target = ''951-group'' \<rparr>]"
  by code_simp

text \<open>
  C5, amended: in an event list whose identifiers are pairwise distinct and none of which
  is \<open>__proto__\<close>, the iteration of a trigger pushes exactly one edge, from the event just
  before it in the list, from \<open>route\<close> when it is the first event, whatever its
  \<open>parentObjectIds\<close> are; that edge is in the result of \<open>buildEdges\<close>; and every edge of
  the result into the trigger comes from that predecessor, apart from the two edges that
  \<open>buildEdges\<close> adds on its own: from \<open>request\<close> to \<open>route\<close> and from \<open>853-group\<close> to
  \<open>951-group\<close>.
\<close>

theorem trigger_linked_from_predecessor:
  assumes "distinct (map objectId evs)" and "''__proto__'' \<notin> set (map objectId evs)"
    and "p < length evs" and "isViolation (evs ! p)"
  shows "process_event evs prev (evs ! p)
           = ([\<lparr> source = (if p = 0 then ''route'' else objectId (evs ! (p - 1))),
                 target = objectId (evs ! p) \<rparr>], [])
     \<and> \<lparr> source = (if p = 0 then ''route'' else objectId (evs ! (p - 1))),
          target = objectId (evs ! p) \<rparr> \<in> set (buildEdges evs)
     \<and> (\<forall>d \<in> set (buildEdges evs).
           target d = objectId (evs ! p) \<longrightarrow>
             source d = (if p = 0 then ''route'' else objectId (evs ! (p - 1)))
             \<or> d = \<lparr> source = ''request'', target = ''route'' \<rparr>
             \<or> d = group_853_951)"
proof (intro conjI ballI impI)
  show pe: "process_event evs prev (evs ! p)
           = ([\<lparr> source = (if p = 0 then ''route'' else objectId (evs ! (p - 1))),
                 target = objectId (evs ! p) \<rparr>], [])"
    by (rule trigger_step [OF assms])
  have mem: "evs ! p \<in> set (sortedEvents evs)" using assms(3) by (simp add: sortedEvents_def)
  from main_loop_covers [OF mem, of evs "''route''"] obtain pr where
    "set (fst (process_event evs pr (evs ! p))) \<subseteq> set (fst (main_loop evs ''route'' (sortedEvents evs)))"
    by blast
  then have "\<lparr> source = (if p = 0 then ''route'' else objectId (evs ! (p - 1))),
          target = objectId (evs ! p) \<rparr> \<in> set (fst (main_loop evs ''route'' (sortedEvents evs)))"
    unfolding trigger_step [OF assms, of pr] by simp
  then show "\<lparr> source = (if p = 0 then ''route'' else objectId (evs ! (p - 1))),
          target = objectId (evs ! p) \<rparr> \<in> set (buildEdges evs)"
    using buildEdges_contains [of evs] by auto
next
  fix d assume "d \<in> set (buildEdges evs)" "target d = objectId (evs ! p)"
  then show "source d = (if p = 0 then ''route'' else objectId (evs ! (p - 1)))
             \<or> d = \<lparr> source = ''request'', target = ''route'' \<rparr>
             \<or> d = group_853_951"
    by (rule trigger_only_edge [OF assms])
qed

theorem trigger_linked_from_predecessor_witness:
  "distinct (map objectId
     [\<lparr> objectId = ''1'', time = ''0'', eventType = ''Creation'', isMethodEvent = True,
        isTriggerEvent = False, isSourceEvent = True, signature = [], args = [],
        parentObjectIds = [], objectData = None, returnData = None \<rparr>,
      \<lparr> objectId = ''2'', time = ''1'', eventType = ''Trigger'', isMethodEvent = True,
        isTriggerEvent = True, isSourceEvent = False, signature = [], args = [],
        parentObjectIds = [''nowhere''], objectData = None, returnData = None \<rparr>])
   \<and> ''__proto__'' \<notin> set (map objectId
     [\<lparr> objectId = ''1'', time = ''0'', eventType = ''Creation'', isMethodEvent = True,
        isTriggerEvent = False, isSourceEvent = True, signature = [], args = [],
        parentObjectIds = [], objectData = None, returnData = None \<rparr>,
      \<lparr> objectId = ''2'', time = ''1'', eventType = ''Trigger'', isMethodEvent = True,
        isTriggerEvent = True, isSourceEvent = False, signature = [], args = [],
        parentObjectIds = [''nowhere''], objectData = None, returnData = None \<rparr>])
   \<and> isViolation ([\<lparr> objectId = ''1'', time = ''0'', eventType = ''Creation'', isMethodEvent = True,
        isTriggerEvent = False, isSourceEvent = True, signature = [], args = [],
        parentObjectIds = [], objectData = None, returnData = None \<rparr>,
      \<lparr> objectId = ''2'', time = ''1'', eventType = ''Trigger'', isMethodEvent = True,
        isTriggerEvent = True, isSourceEvent = False, signature = [], args = [],
        parentObjectIds = [''nowhere''], objectData = None, returnData = None \<rparr>] ! 1)
   \<and> \<lparr> source = ''1'', target = ''2'' \<rparr> \<in> set (buildEdges
     [\<lparr> objectId = ''1'', time = ''0'', eventType = ''Creation'', isMethodEvent = True,
        isTriggerEvent = False, isSourceEvent = True, signature = [], args = [],
        parentObjectIds = [], objectData = None, returnData = None \<rparr>,
      \<lparr> objectId = ''2'', time = ''1'', eventType = ''Trigger'', isMethodEvent = True,
        isTriggerEvent = True, isSourceEvent = False, signature = [], args = [],
        parentObjectIds = [''nowhere''], objectData = None, returnData = None \<rparr>])"
proof -
  have h1: "distinct (map objectId
     [\<lparr> objectId = ''1'', time = ''0'', eventType = ''Creation'', isMethodEvent = True,
        isTriggerEvent = False, isSourceEvent = True, signature = [], args = [],
        parentObjectIds = [], objectData = None, returnData = None \<rparr>,
      \<lparr> objectId = ''2'', time = ''1'', eventType = ''Trigger'', isMethodEvent = True,
        isTriggerEvent = True, isSourceEvent = False, signature = [], args = [],
        parentObjectIds = [''nowhere''], objectData = None, returnData = None \<rparr>])"
    by simp
  have h2: "''__proto__'' \<notin> set (map objectId
     [\<lparr> objectId = ''1'', time = ''0'', eventType = ''Creation'', isMethodEvent = True,
        isTriggerEvent = False, isSourceEvent = True, signature = [], args = [],
        parentObjectIds = [], objectData = None, returnData = None \<rparr>,
      \<lparr> objectId = ''2'', time = ''1'', eventType = ''Trigger'', isMethodEvent = True,
        isTriggerEvent = True, isSourceEvent = False, signature = [], args = [],
        parentObjectIds = [''nowhere''], objectData = None, returnData = None \<rparr>])"
    by simp
  have h3: "1 < length
     [\<lparr> objectId = ''1'', time = ''0'', eventType = ''Creation'', isMethodEvent = True,
        isTriggerEvent = False, isSourceEvent = True, signature = [], args = [],
        parentObjectIds = [], objectData = None, returnData = None \<rparr>,
      \<lparr> objectId = ''2'', time = ''1'', eventType = ''Trigger'', isMethodEvent = True,
        isTriggerEvent = True, isSourceEvent = False, signature = [], args = [],
        parentObjectIds = [''nowhere''], objectData = None, returnData = None \<rparr>]"
    by simp
  have h4: "isViolation ([\<lparr> objectId = ''1'', time = ''0'', eventType = ''Creation'', isMethodEvent = True,
        isTriggerEvent = False, isSourceEvent = True, signature = [], args = [],
        parentObjectIds = [], objectData = None, returnData = None \<rparr>,
      \<lparr> objectId = ''2'', time = ''1'', eventType = ''Trigger'', isMethodEvent = True,
        isTriggerEvent = True, isSourceEvent = False, signature = [], args = [],
        parentObjectIds = [''nowhere''], objectData = None, returnData = None \<rparr>] ! 1)"
    by (simp add: isViolation_def)
  show ?thesis
    using trigger_linked_from_predecessor [OF h1 h2 h3 h4] h1 h2 h4 by simp
qed

section \<open>The grouping pass\<close>

lemma baseIdRegExp_digits_dash:
  assumes "baseIdRegExp s = Some b"
  shows "set s \<subseteq> insert (CHR ''-'') {c. is_digit c} \<and> b = takeWhile is_digit s"
proof -
  let ?d = "takeWhile is_digit s" and ?r = "dropWhile is_digit s"
  have s: "s = ?d @ ?r" by simp
  have d: "set ?d \<subseteq> {c. is_digit c}" by (auto dest: set_takeWhileD)
  have b: "b = ?d" using assms by (auto simp: baseIdRegExp_def Let_def split: if_splits)
  have "set ?r \<subseteq> insert (CHR ''-'') {c. is_digit c}"
  proof (cases "?r = []")
    case True
    then show ?thesis by (metis empty_set empty_subsetI)
  next
    case False
    then have h: "hd ?r = CHR ''-''" and t: "list_all is_digit (tl ?r)"
      using assms by (auto simp: baseIdRegExp_def Let_def split: if_splits)
    have "?r = hd ?r # tl ?r" using False by simp
    then have "set ?r = insert (hd ?r) (set (tl ?r))" by (metis list.simps(15))
    then show ?thesis using h t by (auto simp: list_all_iff)
  qed
  then have "set s \<subseteq> insert (CHR ''-'') {c. is_digit c}"
    using d by (subst s) (auto simp del: takeWhile_dropWhile_id)
  then show ?thesis using b by simp
qed

lemma baseIdRegExp_no_gt:
  assumes "baseIdRegExp s = Some b"
  shows "CHR ''>'' \<notin> set s \<and> CHR ''>'' \<notin> set b"
proof -
  from baseIdRegExp_digits_dash [OF assms]
  have s: "set s \<subseteq> insert (CHR ''-'') {c. is_digit c}" and b: "b = takeWhile is_digit s" by simp_all
  have g: "\<not> is_digit (CHR ''>'')" by (simp add: is_digit_def)
  have "CHR ''>'' \<notin> set s" using s g by auto
  moreover have "set b \<subseteq> set s" unfolding b by (auto dest: set_takeWhileD)
  ultimately show ?thesis by auto
qed

lemma baseIdRegExp_group: "baseIdRegExp (b @ ''-group'') = None"
proof (rule ccontr)
  assume "baseIdRegExp (b @ ''-group'') \<noteq> None"
  then obtain x where "baseIdRegExp (b @ ''-group'') = Some x" by auto
  from baseIdRegExp_digits_dash [OF this]
  have "set (b @ ''-group'') \<subseteq> insert (CHR ''-'') {c. is_digit c}" by simp
  then have "CHR ''g'' = CHR ''-'' \<or> is_digit (CHR ''g'')" by auto
  then show False by (simp add: is_digit_def)
qed

lemma edge_key_inject:
  assumes k: "edge_key e' = edge_key e"
    and s: "CHR ''>'' \<notin> set (source e)" and t: "CHR ''>'' \<notin> set (target e)"
  shows "e' = e"
proof -
  let ?P = "\<lambda>c. c \<noteq> CHR ''>''"
  have eq: "source e' @ CHR ''-'' # CHR ''>'' # target e' = source e @ CHR ''-'' # CHR ''>'' # target e"
    using k by (simp add: edge_key_def)
  have all: "\<And>x. x \<in> set (source e) \<Longrightarrow> x \<noteq> CHR ''>''" using s by auto
  have r1: "takeWhile ?P (source e @ CHR ''-'' # CHR ''>'' # target e) = source e @ [CHR ''-'']"
    by (simp add: takeWhile_append2 [of "source e" ?P, OF all])
  have r2: "dropWhile ?P (source e @ CHR ''-'' # CHR ''>'' # target e) = CHR ''>'' # target e"
    by (simp add: dropWhile_append2 [of "source e" ?P, OF all])
  have st: "source e' = source e \<and> target e' = target e"
  proof (cases "CHR ''>'' \<in> set (source e')")
    case False
    then have all': "\<And>x. x \<in> set (source e') \<Longrightarrow> x \<noteq> CHR ''>''" by auto
    have "takeWhile ?P (source e' @ CHR ''-'' # CHR ''>'' # target e') = source e' @ [CHR ''-'']"
      by (simp add: takeWhile_append2 [of "source e'" ?P, OF all'])
    then have "source e' = source e" using r1 eq by simp
    then show ?thesis using eq by simp
  next
    case True
    then have "dropWhile ?P (source e' @ CHR ''-'' # CHR ''>'' # target e')
        = dropWhile ?P (source e') @ CHR ''-'' # CHR ''>'' # target e'"
      by (simp add: dropWhile_append1)
    then have d: "dropWhile ?P (source e') @ CHR ''-'' # CHR ''>'' # target e' = CHR ''>'' # target e"
      using r2 eq by simp
    have "dropWhile ?P (source e') \<noteq> []" using True by simp
    then obtain c cs where cs: "dropWhile ?P (source e') = c # cs" by (cases "dropWhile ?P (source e')") auto
    then have "target e = cs @ CHR ''-'' # CHR ''>'' # target e'" using d by simp
    then have "CHR ''>'' \<in> set (target e)" by simp
    then show ?thesis using t by simp
  qed
  show ?thesis using st by (cases e, cases e') simp
qed

lemma uniqueEdges_member:
  assumes "e \<in> set es" and "edge_key e \<notin> set seen"
    and "\<forall>e' \<in> set es. edge_key e' = edge_key e \<longrightarrow> e' = e"
  shows "e \<in> set (uniqueEdges seen es)"
  using assms
proof (induction es arbitrary: seen)
  case Nil
  then show ?case by simp
next
  case (Cons x xs)
  show ?case
  proof (cases "x = e")
    case True
    then show ?thesis using Cons.prems(2) by simp
  next
    case False
    then have mem: "e \<in> set xs" using Cons.prems(1) by simp
    have uniq: "\<forall>e' \<in> set xs. edge_key e' = edge_key e \<longrightarrow> e' = e" using Cons.prems(3) by simp
    have kx: "edge_key x \<noteq> edge_key e" using Cons.prems(3) False by auto
    show ?thesis
    proof (cases "edge_key x \<in> set seen")
      case True
      then show ?thesis using Cons.IH [OF mem Cons.prems(2) uniq] by simp
    next
      case nseen: False
      have "edge_key e \<notin> set (edge_key x # seen)" using kx Cons.prems(2) by auto
      from Cons.IH [OF mem this uniq] show ?thesis using nseen by simp
    qed
  qed
qed

lemma connect_853_951_mono: "set es \<subseteq> set (connect_853_951 ns es)"
  by (auto simp: connect_853_951_def)

lemma mark_baseId_fields [simp]:
  "nid (mark_baseId n) = nid n" "ntype (mark_baseId n) = ntype n" "label (mark_baseId n) = label n"
  "nodeIsTriggerEvent (mark_baseId n) = nodeIsTriggerEvent n" "category (mark_baseId n) = category n"
  "nodeIsSourceEvent (mark_baseId n) = nodeIsSourceEvent n"
  by (simp_all add: mark_baseId_def split: option.splits)

lemma mark_baseId_unmatched: "baseIdRegExp (nid n) = None \<Longrightarrow> mark_baseId n = n"
  by (simp add: mark_baseId_def)

lemma baseIdGroups_snoc: "baseIdGroups (ns @ [n]) = add_to_group (baseIdGroups ns) n"
  by (simp add: baseIdGroups_def)

lemma baseIdGroups_lookup:
  "map_of (baseIdGroups ns) b
     = (if group_sources ns b = [] \<and> group_others ns b = [] then None
        else Some (map mark_baseId (group_sources ns b), map mark_baseId (group_others ns b)))"
proof (induction ns rule: rev_induct)
  case Nil
  show ?case by (simp add: baseIdGroups_def group_sources_def group_others_def)
next
  case (snoc n ns)
  show ?case
  proof (cases "baseIdRegExp (nid n)")
    case None
    then show ?thesis using snoc.IH
      by (simp add: baseIdGroups_snoc add_to_group_def group_sources_def group_others_def)
  next
    case (Some b')
    show ?thesis
    proof (cases "b' = b")
      case False
      then show ?thesis using snoc.IH Some
        by (simp add: baseIdGroups_snoc add_to_group_def group_sources_def group_others_def
            update_conv' split_beta Let_def)
    next
      case True
      then show ?thesis using snoc.IH Some
        by (simp add: baseIdGroups_snoc add_to_group_def group_sources_def group_others_def
            update_conv' split_beta Let_def)
    qed
  qed
qed

lemma distinct_baseIdGroups: "distinct (map fst (baseIdGroups ns))"
proof (induction ns rule: rev_induct)
  case Nil
  show ?case by (simp add: baseIdGroups_def)
next
  case (snoc n ns)
  then show ?case
    by (simp add: baseIdGroups_snoc add_to_group_def distinct_update split_beta Let_def
        split: option.splits)
qed

text \<open>What one key contributes to each accumulator of the collapse.\<close>

lemma collapse_nodesToAdd:
  "nodesToAdd (foldl (collapse_group g es) c ks)
     = nodesToAdd c
       @ concat (map (\<lambda>b. case map_of g b of
                             None \<Rightarrow> []
                           | Some (srcs, others) \<Rightarrow>
                               if length others > 1 then [representativeNode b others] else []) ks)"
  by (induction ks arbitrary: c) (auto simp: collapse_group_def split: option.splits)

lemma collapse_nodesToRemove:
  "nodesToRemove (foldl (collapse_group g es) c ks)
     = nodesToRemove c
       @ concat (map (\<lambda>b. case map_of g b of
                             None \<Rightarrow> []
                           | Some (srcs, others) \<Rightarrow>
                               if length others > 1 then map nid others else []) ks)"
  by (induction ks arbitrary: c) (auto simp: collapse_group_def split: option.splits)

lemma collapse_newEdgesToAdd:
  "newEdgesToAdd (foldl (collapse_group g es) c ks)
     = newEdgesToAdd c
       @ concat (map (\<lambda>b. case map_of g b of
                             None \<Rightarrow> []
                           | Some (srcs, others) \<Rightarrow>
                               if length others > 1
                               then map (\<lambda>s. \<lparr> source = nid s, target = b @ ''-group'' \<rparr>) srcs
                               else []) ks)"
  by (induction ks arbitrary: c) (auto simp: collapse_group_def split: option.splits)

lemma concat_map_single:
  assumes "distinct ks" and "b \<in> set ks" and "\<forall>k \<in> set ks. k \<noteq> b \<longrightarrow> f k = []"
  shows "concat (map f ks) = f b"
  using assms
proof (induction ks)
  case Nil
  then show ?case by simp
next
  case (Cons k ks)
  show ?case
  proof (cases "k = b")
    case True
    then have "\<forall>k' \<in> set ks. f k' = []" using Cons.prems by auto
    then have "concat (map f ks) = []" by simp
    then show ?thesis using True by simp
  next
    case False
    then show ?thesis using Cons by auto
  qed
qed

lemma group_lookup_others:
  assumes "group_others ns b \<noteq> []"
  shows "map_of (baseIdGroups ns) b
           = Some (map mark_baseId (group_sources ns b), map mark_baseId (group_others ns b))"
    and "b \<in> set (Object_keys (baseIdGroups ns))"
proof -
  show 1: "map_of (baseIdGroups ns) b
           = Some (map mark_baseId (group_sources ns b), map mark_baseId (group_others ns b))"
    using assms by (simp add: baseIdGroups_lookup)
  from map_of_SomeD [OF 1] show "b \<in> set (Object_keys (baseIdGroups ns))"
    by (force simp: set_Object_keys)
qed

lemma group_members_match:
  assumes "map_of (baseIdGroups ns) k = Some (srcs, others)" and "m \<in> set srcs \<union> set others"
  shows "baseIdRegExp (nid m) = Some k"
proof -
  from assms(1) have "srcs = map mark_baseId (group_sources ns k)"
    and "others = map mark_baseId (group_others ns k)"
    by (auto simp: baseIdGroups_lookup split: if_splits)
  then show ?thesis using assms(2) by (auto simp: group_sources_def group_others_def)
qed

lemma in_collapsed_contribution:
  assumes "x \<in> set (concat (map (\<lambda>b. case map_of g b of
                             None \<Rightarrow> []
                           | Some (srcs, others) \<Rightarrow>
                               if length others > 1 then h b srcs others else []) ks))"
  shows "\<exists>k srcs others. map_of g k = Some (srcs, others) \<and> x \<in> set (h k srcs others)"
proof -
  from assms obtain k where k: "k \<in> set ks"
    and x: "x \<in> set (case map_of g k of
                             None \<Rightarrow> []
                           | Some (srcs, others) \<Rightarrow>
                               if length others > 1 then h k srcs others else [])"
    by auto
  show ?thesis
  proof (cases "map_of g k")
    case None
    then show ?thesis using x by simp
  next
    case (Some p)
    obtain srcs others where p: "p = (srcs, others)" by (cases p)
    have "x \<in> set (h k srcs others)" using x Some p by (simp split: if_splits)
    then show ?thesis using Some p by blast
  qed
qed

lemma removed_ids_match:
  assumes "x \<in> set (nodesToRemove (collapse_all ns es))"
  shows "baseIdRegExp x \<noteq> None"
proof -
  from assms have "x \<in> set (concat (map (\<lambda>b. case map_of (baseIdGroups ns) b of
                             None \<Rightarrow> []
                           | Some (srcs, others) \<Rightarrow>
                               if length others > 1 then (\<lambda>b srcs others. map nid others) b srcs others else [])
                         (Object_keys (baseIdGroups ns))))"
    by (simp add: collapse_all_def collapse_nodesToRemove)
  from in_collapsed_contribution [OF this]
  obtain k srcs others m where "map_of (baseIdGroups ns) k = Some (srcs, others)"
    and "m \<in> set others" and "x = nid m"
    by auto
  then show ?thesis using group_members_match [of ns k srcs others m] by simp
qed

lemma added_ids_group:
  assumes "n \<in> set (nodesToAdd (collapse_all ns es))"
  shows "\<exists>k. nid n = k @ ''-group''"
proof -
  from assms have "n \<in> set (concat (map (\<lambda>b. case map_of (baseIdGroups ns) b of
                             None \<Rightarrow> []
                           | Some (srcs, others) \<Rightarrow>
                               if length others > 1
                               then (\<lambda>b srcs others. [representativeNode b others]) b srcs others
                               else [])
                         (Object_keys (baseIdGroups ns))))"
    by (simp add: collapse_all_def collapse_nodesToAdd)
  from in_collapsed_contribution [OF this]
  obtain k others where "n = representativeNode k others" by auto
  then show ?thesis by (simp add: representativeNode_def)
qed

lemma added_with_group_id:
  assumes "length (group_others ns b) > 1"
  shows "filter (\<lambda>n. nid n = b @ ''-group'') (nodesToAdd (collapse_all ns es))
           = [representativeNode b (map mark_baseId (group_others ns b))]"
proof -
  let ?g = "baseIdGroups ns"
  let ?P = "\<lambda>n. nid n = b @ ''-group''"
  let ?F = "\<lambda>k. filter ?P (case map_of ?g k of
                             None \<Rightarrow> []
                           | Some (srcs, others) \<Rightarrow>
                               if length others > 1 then [representativeNode k others] else [])"
  from assms have ne: "group_others ns b \<noteq> []" by auto
  note lk = group_lookup_others [OF ne]
  have other: "\<forall>k \<in> set (Object_keys ?g). k \<noteq> b \<longrightarrow> ?F k = []"
    by (auto simp: representativeNode_def split: option.splits)
  have "filter ?P (nodesToAdd (collapse_all ns es)) = concat (map ?F (Object_keys ?g))"
    by (simp add: collapse_all_def collapse_nodesToAdd filter_concat comp_def)
  also have "\<dots> = ?F b"
    by (rule concat_map_single [OF distinct_Object_keys [OF distinct_baseIdGroups] lk(2) other])
  also have "\<dots> = [representativeNode b (map mark_baseId (group_others ns b))]"
    using assms by (simp add: lk(1) representativeNode_def)
  finally show ?thesis .
qed

lemma kept_with_group_id:
  "filter (\<lambda>n. nid n = b @ ''-group'')
     (filter (\<lambda>n. nid n \<notin> set (nodesToRemove (collapse_all ns es))) (map mark_baseId ms))
   = filter (\<lambda>n. nid n = b @ ''-group'') ms"
proof (induction ms)
  case Nil
  show ?case by simp
next
  case (Cons m ms)
  show ?case
  proof (cases "nid m = b @ ''-group''")
    case True
    then have u: "mark_baseId m = m" by (simp add: mark_baseId_unmatched baseIdRegExp_group)
    have "nid m \<notin> set (nodesToRemove (collapse_all ns es))"
      using removed_ids_match [of "nid m" ns es] True by (auto simp: baseIdRegExp_group)
    then show ?thesis using Cons.IH True u by simp
  next
    case False
    then show ?thesis using Cons.IH by simp
  qed
qed

lemma members_removed:
  assumes "length (group_others ns b) > 1" and "m \<in> set (group_others ns b)"
  shows "nid m \<notin> set (map nid (fst (groupSimilarNodes ns es)))"
proof -
  let ?g = "baseIdGroups ns"
  from assms(1) have ne: "group_others ns b \<noteq> []" by auto
  note lk = group_lookup_others [OF ne]
  have "nid m \<in> set (case map_of ?g b of
                             None \<Rightarrow> []
                           | Some (srcs, others) \<Rightarrow>
                               if length others > 1 then map nid others else [])"
    using assms by (simp add: lk(1))
  then have rem: "nid m \<in> set (nodesToRemove (collapse_all ns es))"
    using lk(2) by (simp add: collapse_all_def collapse_nodesToRemove) blast
  have match: "baseIdRegExp (nid m) = Some b" using assms(2) by (simp add: group_others_def)
  have "\<forall>n \<in> set (nodesToAdd (collapse_all ns es)). nid n \<noteq> nid m"
  proof (intro ballI notI)
    fix n assume n: "n \<in> set (nodesToAdd (collapse_all ns es))" and e: "nid n = nid m"
    from added_ids_group [OF n] obtain k where "nid n = k @ ''-group''" by blast
    then show False using e match by (simp add: baseIdRegExp_group)
  qed
  then have "nid m \<notin> nid ` set (nodesToAdd (collapse_all ns es))" by force
  then show ?thesis using rem by (auto simp: groupSimilarNodes_def Let_def)
qed

lemma source_edges_added:
  assumes "length (group_others ns b) > 1" and "s \<in> set (group_sources ns b)"
  shows "\<lparr> source = nid s, target = b @ ''-group'' \<rparr> \<in> set (snd (groupSimilarNodes ns es))"
proof -
  let ?g = "baseIdGroups ns"
  let ?e = "\<lparr> source = nid s, target = b @ ''-group'' \<rparr>"
  from assms(1) have ne: "group_others ns b \<noteq> []" by auto
  note lk = group_lookup_others [OF ne]
  have "?e \<in> set (case map_of ?g b of
                             None \<Rightarrow> []
                           | Some (srcs, others) \<Rightarrow>
                               if length others > 1
                               then map (\<lambda>s. \<lparr> source = nid s, target = b @ ''-group'' \<rparr>) srcs
                               else [])"
    using assms by (simp add: lk(1))
  then have new: "?e \<in> set (newEdgesToAdd (collapse_all ns es))"
    using lk(2) by (simp add: collapse_all_def collapse_newEdgesToAdd) blast
  have match: "baseIdRegExp (nid s) = Some b" using assms(2) by (simp add: group_sources_def)
  from baseIdRegExp_no_gt [OF match]
  have gs: "CHR ''>'' \<notin> set (source ?e)" and gt: "CHR ''>'' \<notin> set (target ?e)" by simp_all
  let ?upd = "map (apply_update (edgesToUpdate (collapse_all ns es)))
                (filter (keep_edge (edgesToUpdate (collapse_all ns es))) es)
              @ newEdgesToAdd (collapse_all ns es)"
  have mem: "?e \<in> set ?upd" using new by simp
  have uniq: "\<forall>e' \<in> set ?upd. edge_key e' = edge_key ?e \<longrightarrow> e' = ?e"
    using edge_key_inject [OF _ gs gt] by blast
  have "?e \<in> set (uniqueEdges [] ?upd)"
    by (rule uniqueEdges_member [OF mem _ uniq]) simp
  then show ?thesis
    using connect_853_951_mono by (auto simp: groupSimilarNodes_def Let_def)
qed

text \<open>
  C8: for a base identifier with more than one non-source node, the grouping pass adds
  exactly one node named after the base with the suffix \<open>-group\<close>: a collapsed group
  that takes type, label and category from the first of those nodes, is a trigger when
  one of them is, and lists their identifiers. None of their identifiers is left among
  the nodes, and every source node of the base has an edge to the group node.
\<close>

theorem grouping_collapses_others:
  assumes "length (group_others ns b) > 1"
  shows "filter (\<lambda>n. nid n = b @ ''-group'') (fst (groupSimilarNodes ns es))
           = filter (\<lambda>n. nid n = b @ ''-group'') ns
             @ [\<lparr> nid = b @ ''-group'',
                  ntype = ntype (hd (group_others ns b)),
                  label = label (hd (group_others ns b)),
                  nodeIsSourceEvent = False,
                  nodeIsTriggerEvent = list_ex nodeIsTriggerEvent (group_others ns b),
                  category = category (hd (group_others ns b)),
                  baseId = None,
                  isCollapsedGroup = True,
                  objectIds = map nid (group_others ns b),
                  y = None \<rparr>]
     \<and> (\<forall>m \<in> set (group_others ns b). nid m \<notin> set (map nid (fst (groupSimilarNodes ns es))))
     \<and> (\<forall>s \<in> set (group_sources ns b).
           \<lparr> source = nid s, target = b @ ''-group'' \<rparr> \<in> set (snd (groupSimilarNodes ns es)))"
proof (intro conjI ballI)
  from assms have ne: "group_others ns b \<noteq> []" by auto
  have rep: "representativeNode b (map mark_baseId (group_others ns b))
      = \<lparr> nid = b @ ''-group'',
                  ntype = ntype (hd (group_others ns b)),
                  label = label (hd (group_others ns b)),
                  nodeIsSourceEvent = False,
                  nodeIsTriggerEvent = list_ex nodeIsTriggerEvent (group_others ns b),
                  category = category (hd (group_others ns b)),
                  baseId = None,
                  isCollapsedGroup = True,
                  objectIds = map nid (group_others ns b),
                  y = None \<rparr>"
    using ne by (simp add: representativeNode_def hd_map list_ex_iff comp_def)
  show "filter (\<lambda>n. nid n = b @ ''-group'') (fst (groupSimilarNodes ns es))
           = filter (\<lambda>n. nid n = b @ ''-group'') ns
             @ [\<lparr> nid = b @ ''-group'',
                  ntype = ntype (hd (group_others ns b)),
                  label = label (hd (group_others ns b)),
                  nodeIsSourceEvent = False,
                  nodeIsTriggerEvent = list_ex nodeIsTriggerEvent (group_others ns b),
                  category = category (hd (group_others ns b)),
                  baseId = None,
                  isCollapsedGroup = True,
                  objectIds = map nid (group_others ns b),
                  y = None \<rparr>]"
    unfolding rep [symmetric]
    by (simp add: groupSimilarNodes_def Let_def kept_with_group_id added_with_group_id [OF assms]
        del: filter_filter)
next
  fix m assume "m \<in> set (group_others ns b)"
  then show "nid m \<notin> set (map nid (fst (groupSimilarNodes ns es)))"
    by (rule members_removed [OF assms])
next
  fix s assume "s \<in> set (group_sources ns b)"
  then show "\<lparr> source = nid s, target = b @ ''-group'' \<rparr> \<in> set (snd (groupSimilarNodes ns es))"
    by (rule source_edges_added [OF assms])
qed

theorem grouping_collapses_others_witness:
  "length (group_others
     [plain_node ''request'' ''http-request'' ''HTTP Request'',
      plain_node ''route'' ''route'' ''Route'',
      (plain_node ''7'' ''trace-event'' ''Source'') \<lparr> nodeIsSourceEvent := True \<rparr>,
      plain_node ''7-1'' ''trace-event'' ''Propagator'',
      plain_node ''7-2'' ''trace-event'' ''Propagator'',
      plain_node ''7-3'' ''trace-event'' ''Propagator''] ''7'') > 1
   \<and> map nid (fst (groupSimilarNodes
     [plain_node ''request'' ''http-request'' ''HTTP Request'',
      plain_node ''route'' ''route'' ''Route'',
      (plain_node ''7'' ''trace-event'' ''Source'') \<lparr> nodeIsSourceEvent := True \<rparr>,
      plain_node ''7-1'' ''trace-event'' ''Propagator'',
      plain_node ''7-2'' ''trace-event'' ''Propagator'',
      plain_node ''7-3'' ''trace-event'' ''Propagator'']
     [\<lparr> source = ''request'', target = ''route'' \<rparr>,
      \<lparr> source = ''route'', target = ''7'' \<rparr>,
      \<lparr> source = ''7'', target = ''7-1'' \<rparr>,
      \<lparr> source = ''7'', target = ''7-2'' \<rparr>,
      \<lparr> source = ''7'', target = ''7-3'' \<rparr>]))
     = [''request'', ''route'', ''7'', ''7-group'']
   \<and> \<lparr> source = ''7'', target = ''7-group'' \<rparr> \<in> set (snd (groupSimilarNodes
     [plain_node ''request'' ''http-request'' ''HTTP Request'',
      plain_node ''route'' ''route'' ''Route'',
      (plain_node ''7'' ''trace-event'' ''Source'') \<lparr> nodeIsSourceEvent := True \<rparr>,
      plain_node ''7-1'' ''trace-event'' ''Propagator'',
      plain_node ''7-2'' ''trace-event'' ''Propagator'',
      plain_node ''7-3'' ''trace-event'' ''Propagator'']
     [\<lparr> source = ''request'', target = ''route'' \<rparr>,
      \<lparr> source = ''route'', target = ''7'' \<rparr>,
      \<lparr> source = ''7'', target = ''7-1'' \<rparr>,
      \<lparr> source = ''7'', target = ''7-2'' \<rparr>,
      \<lparr> source = ''7'', target = ''7-3'' \<rparr>]))"
proof -
  have h: "length (group_others
     [plain_node ''request'' ''http-request'' ''HTTP Request'',
      plain_node ''route'' ''route'' ''Route'',
      (plain_node ''7'' ''trace-event'' ''Source'') \<lparr> nodeIsSourceEvent := True \<rparr>,
      plain_node ''7-1'' ''trace-event'' ''Propagator'',
      plain_node ''7-2'' ''trace-event'' ''Propagator'',
      plain_node ''7-3'' ''trace-event'' ''Propagator''] ''7'') > 1"
    by code_simp
  have g: "group_sources
     [plain_node ''request'' ''http-request'' ''HTTP Request'',
      plain_node ''route'' ''route'' ''Route'',
      (plain_node ''7'' ''trace-event'' ''Source'') \<lparr> nodeIsSourceEvent := True \<rparr>,
      plain_node ''7-1'' ''trace-event'' ''Propagator'',
      plain_node ''7-2'' ''trace-event'' ''Propagator'',
      plain_node ''7-3'' ''trace-event'' ''Propagator''] ''7''
     = [(plain_node ''7'' ''trace-event'' ''Source'') \<lparr> nodeIsSourceEvent := True \<rparr>]"
    by code_simp
  have i: "map nid (fst (groupSimilarNodes
     [plain_node ''request'' ''http-request'' ''HTTP Request'',
      plain_node ''route'' ''route'' ''Route'',
      (plain_node ''7'' ''trace-event'' ''Source'') \<lparr> nodeIsSourceEvent := True \<rparr>,
      plain_node ''7-1'' ''trace-event'' ''Propagator'',
      plain_node ''7-2'' ''trace-event'' ''Propagator'',
      plain_node ''7-3'' ''trace-event'' ''Propagator'']
     [\<lparr> source = ''request'', target = ''route'' \<rparr>,
      \<lparr> source = ''route'', target = ''7'' \<rparr>,
      \<lparr> source = ''7'', target = ''7-1'' \<rparr>,
      \<lparr> source = ''7'', target = ''7-2'' \<rparr>,
      \<lparr> source = ''7'', target = ''7-3'' \<rparr>]))
     = [''request'', ''route'', ''7'', ''7-group'']"
    by code_simp
  have n: "nid ((plain_node ''7'' ''trace-event'' ''Source'') \<lparr> nodeIsSourceEvent := True \<rparr>) = ''7''"
    by (simp add: plain_node_def)
  show ?thesis
    using grouping_collapses_others [OF h, of
     "[\<lparr> source = ''request'', target = ''route'' \<rparr>,
      \<lparr> source = ''route'', target = ''7'' \<rparr>,
      \<lparr> source = ''7'', target = ''7-1'' \<rparr>,
      \<lparr> source = ''7'', target = ''7-2'' \<rparr>,
      \<lparr> source = ''7'', target = ''7-3'' \<rparr>]"] h i
    by (simp add: g n)
qed

section \<open>The corrective pass\<close>

text \<open>
  C9. The claim: after the corrective pass every edge goes from a node to a node that is
  not higher. The trace of four propagation events \<open>1\<close> (parent \<open>2\<close>), \<open>2\<close> (parent \<open>3\<close>),
  \<open>3\<close> (parent \<open>route\<close>) and \<open>4\<close> (parent \<open>3\<close>) gives the links below; with the top margin
  of 180 the earlier steps of the layout put \<open>request\<close> at 230, \<open>route\<close> at 330, the
  main-flow node \<open>2\<close> at 530, the junction \<open>3\<close> at 570 and the end points \<open>1\<close> and \<open>4\<close> at
  610. The pass visits \<open>1\<close> before its parent \<open>2\<close> and then moves \<open>2\<close> to 650: the edge
  from \<open>2\<close> to \<open>1\<close> ends 40 units above its start.
\<close>

theorem corrective_pass_parent_below_child:
  "buildEdges
     [\<lparr> objectId = ''1'', time = ''0'', eventType = ''P2O'', isMethodEvent = False,
        isTriggerEvent = False, isSourceEvent = False, signature = [], args = [],
        parentObjectIds = [''2''], objectData = None, returnData = None \<rparr>,
      \<lparr> objectId = ''2'', time = ''0'', eventType = ''P2O'', isMethodEvent = False,
        isTriggerEvent = False, isSourceEvent = False, signature = [], args = [],
        parentObjectIds = [''3''], objectData = None, returnData = None \<rparr>,
      \<lparr> objectId = ''3'', time = ''0'', eventType = ''P2O'', isMethodEvent = False,
        isTriggerEvent = False, isSourceEvent = False, signature = [], args = [],
        parentObjectIds = [''route''], objectData = None, returnData = None \<rparr>,
      \<lparr> objectId = ''4'', time = ''0'', eventType = ''P2O'', isMethodEvent = False,
        isTriggerEvent = False, isSourceEvent = False, signature = [], args = [],
        parentObjectIds = [''3''], objectData = None, returnData = None \<rparr>]
   = [\<lparr> source = ''request'', target = ''route'' \<rparr>,
      \<lparr> source = ''2'', target = ''1'' \<rparr>,
      \<lparr> source = ''3'', target = ''2'' \<rparr>,
      \<lparr> source = ''route'', target = ''3'' \<rparr>,
      \<lparr> source = ''3'', target = ''4'' \<rparr>]
   \<and> map (\<lambda>n. (nid n, y n))
       (corrective_pass
          [\<lparr> source = ''request'', target = ''route'' \<rparr>,
           \<lparr> source = ''2'', target = ''1'' \<rparr>,
           \<lparr> source = ''3'', target = ''2'' \<rparr>,
           \<lparr> source = ''route'', target = ''3'' \<rparr>,
           \<lparr> source = ''3'', target = ''4'' \<rparr>]
          [(plain_node ''request'' ''http-request'' ''HTTP Request'') \<lparr> y := Some 230 \<rparr>,
           (plain_node ''route'' ''route'' ''Route'') \<lparr> y := Some 330 \<rparr>,
           (plain_node ''1'' ''trace-event'' ''Propagator'') \<lparr> y := Some 610 \<rparr>,
           (plain_node ''2'' ''trace-event'' ''Propagator'') \<lparr> y := Some 530 \<rparr>,
           (plain_node ''3'' ''trace-event'' ''Propagator'') \<lparr> y := Some 570 \<rparr>,
           (plain_node ''4'' ''trace-event'' ''Propagator'') \<lparr> y := Some 610 \<rparr>])
     = [(''request'', Some 230), (''route'', Some 330), (''1'', Some 610),
        (''2'', Some 650), (''3'', Some 570), (''4'', Some 650)]"
  by code_simp


end
